theory Spec2Isabelle
  imports Main "HOL-Library.Word"
begin

unbundle bit_operations_syntax

section \<open>Octets and buffers\<close>

type_synonym u8 = "8 word"
type_synonym u32 = "32 word"

text \<open>
  A \<^verbatim>\<open>struct SSH_BUFFER\<close> has a backing store \<^verbatim>\<open>data\<close> and a nominal length
  \<^verbatim>\<open>len\<close>; stream.c reads and writes the store past the nominal length (the MAC lives
  there). The store is the list of octets written so far, the nominal length a number of
  its own. Sizes (\<^verbatim>\<open>size_t\<close>) are natural numbers; the 32-bit and 8-bit quantities of
  stream.c are words, and every conversion between the two is written where the C
  converts. Allocation failure (a \<^verbatim>\<open>NULL\<close> write pointer, a negative return of a
  writer) is not a function of the input and has no branch here.
\<close>

record SSH_BUFFER =
  data :: "u8 list"
  len :: nat

text \<open>
  \<^verbatim>\<open>memcpy\<close>, \<^verbatim>\<open>memset\<close> and the output of the cipher and of the MAC: the octets
  \<open>bs\<close> stored at offset \<open>off\<close> of a store. Octets of the store that were never
  written read as 0.
\<close>

definition mem_store :: "u8 list \<Rightarrow> nat \<Rightarrow> u8 list \<Rightarrow> u8 list" where
  "mem_store mem off bs =
     take off mem @ replicate (off - length mem) 0 @ bs @ drop (off + length bs) mem"

text \<open>The four octets of a 32-bit value, most significant first.\<close>

definition u32_be :: "u32 \<Rightarrow> u8 list" where
  "u32_be v = [ucast (drop_bit 24 v), ucast (drop_bit 16 v), ucast (drop_bit 8 v), ucast v]"

text \<open>
  Modelled from the spec: the byte buffer of buffer.c, which is not among the sources
  (section 4.1: clear, grow, append, \<open>write_u8\<close>, \<open>write_u32_be\<close>, \<open>write_string\<close>
  "writes 4-byte length then bytes", u32 big-endian), with the meaning stream.c gives
  each call: \<^verbatim>\<open>ssh_buf_get_write_pointer(buf, n)\<close> adds \<open>n\<close> to the nominal length and
  returns the address of the old end, \<^verbatim>\<open>ssh_buf_grow\<close> "only grow[s the] buffer" and
  does not "change its nominal length".
\<close>

definition ssh_buf_new :: SSH_BUFFER where
  "ssh_buf_new = \<lparr>data = [], len = 0\<rparr>"

definition ssh_buf_clear :: "SSH_BUFFER \<Rightarrow> SSH_BUFFER" where
  "ssh_buf_clear b = b\<lparr>len := 0\<rparr>"

definition ssh_buf_grow :: "SSH_BUFFER \<Rightarrow> nat \<Rightarrow> SSH_BUFFER" where
  "ssh_buf_grow b n = b"

definition ssh_buf_get_write_pointer :: "SSH_BUFFER \<Rightarrow> nat \<Rightarrow> nat \<times> SSH_BUFFER" where
  "ssh_buf_get_write_pointer b n = (len b, b\<lparr>len := len b + n\<rparr>)"

definition buf_fill :: "SSH_BUFFER \<Rightarrow> nat \<Rightarrow> u8 list \<Rightarrow> SSH_BUFFER" where
  "buf_fill b p bs = b\<lparr>data := mem_store (data b) p bs\<rparr>"

definition ssh_buf_append :: "SSH_BUFFER \<Rightarrow> u8 list \<Rightarrow> SSH_BUFFER" where
  "ssh_buf_append b bs =
     (let (p, b1) = ssh_buf_get_write_pointer b (length bs) in buf_fill b1 p bs)"

definition ssh_buf_write_u8 :: "SSH_BUFFER \<Rightarrow> u8 \<Rightarrow> SSH_BUFFER" where
  "ssh_buf_write_u8 b v = ssh_buf_append b [v]"

definition ssh_buf_write_u32 :: "SSH_BUFFER \<Rightarrow> u32 \<Rightarrow> SSH_BUFFER" where
  "ssh_buf_write_u32 b v = ssh_buf_append b (u32_be v)"

definition ssh_buf_set_u32 :: "u8 list \<Rightarrow> u32 \<Rightarrow> u8 list" where
  "ssh_buf_set_u32 mem v = mem_store mem 0 (u32_be v)"

definition ssh_buf_get_u32 :: "u8 list \<Rightarrow> u32" where
  "ssh_buf_get_u32 mem =
     push_bit 24 (ucast (mem ! 0)) OR push_bit 16 (ucast (mem ! 1))
       OR push_bit 8 (ucast (mem ! 2)) OR ucast (mem ! 3)"

definition ssh_buf_remove_data :: "SSH_BUFFER \<Rightarrow> nat \<Rightarrow> nat \<Rightarrow> SSH_BUFFER option" where
  "ssh_buf_remove_data b off n =
     (if off + n \<le> len b
      then Some \<lparr>data = take off (data b) @ drop (off + n) (data b), len = len b - n\<rparr>
      else None)"

text \<open>The octets a buffer nominally holds.\<close>

definition contents :: "SSH_BUFFER \<Rightarrow> u8 list" where
  "contents b = take (len b) (data b)"

section \<open>Collaborators of the stream\<close>

datatype error =
    InvalidLength      \<comment> \<open>"invalid packet size"\<close>
  | InvalidPadding     \<comment> \<open>"bad padding length"\<close>
  | UnalignedLength    \<comment> \<open>"bad padding len in received packet: n mod block"\<close>
  | MacMismatch        \<comment> \<open>"bad mac in incoming packet"\<close>
  | CipherError        \<comment> \<open>\<^verbatim>\<open>ssh_cipher_crypt\<close> returned a negative value\<close>
  | MacError           \<comment> \<open>\<^verbatim>\<open>ssh_mac_compute\<close> returned a negative value\<close>
  | HashError          \<comment> \<open>\<^verbatim>\<open>ssh_hash_compute\<close> returned a negative value\<close>
  | BufferError        \<comment> \<open>\<^verbatim>\<open>ssh_buf_remove_data\<close> returned a negative value\<close>
  | IoError            \<comment> \<open>the socket failed\<close>
  | UndefinedBehaviour \<comment> \<open>no return at all: a read past the reserved octets, a division by zero\<close>

text \<open>
  Every failure of the C functions is the return value -1 (with a message set by
  \<^verbatim>\<open>ssh_set_error\<close>); the model names the place that failed. \<open>UndefinedBehaviour\<close> is
  the exception: it stands where the C does not return, because it divides by zero or
  hands a function a length that reaches past the octets it has reserved. Nothing is
  known of the run after that point; the stream that the model returns with it is the
  stream as it was at that point.

  The enumerations of cipher.h and mac.h are not among the sources; stream.c names
  only \<^verbatim>\<open>SSH_CIPHER_NONE\<close> and \<^verbatim>\<open>SSH_MAC_NONE\<close>, the other members are numbered.
\<close>

datatype SSH_CIPHER_TYPE = SSH_CIPHER_NONE | SSH_CIPHER_ALGO nat

datatype SSH_MAC_TYPE = SSH_MAC_NONE | SSH_MAC_ALGO nat

text \<open>
  The cryptographic library behind the stream, as parameters: the cipher maps a
  context and input octets to the advanced context and the output octets (or fails),
  the keyed digest maps a MAC context and a message to the digest (or fails), and
  \<open>random_octet i\<close> is the \<open>i\<close>-th octet the generator hands out in this call.
\<close>

record ('c, 'm) EXTERN =
  cipher_crypt :: "'c \<Rightarrow> u8 list \<Rightarrow> ('c \<times> u8 list) option"
  mac_digest :: "'m \<Rightarrow> u8 list \<Rightarrow> u8 list option"
  random_octet :: "nat \<Rightarrow> u8"

definition crypto_random_gen :: "('c, 'm) EXTERN \<Rightarrow> nat \<Rightarrow> u8 list" where
  "crypto_random_gen X n = map (random_octet X) [0..<n]"

text \<open>
  \<^verbatim>\<open>ssh_cipher_crypt(ctx, out, in, len)\<close>. A \<^verbatim>\<open>NULL\<close> context (which no stream with a
  cipher installed has) is a failure.
\<close>

definition ssh_cipher_crypt ::
  "('c, 'm) EXTERN \<Rightarrow> 'c option \<Rightarrow> u8 list \<Rightarrow> ('c \<times> u8 list) option" where
  "ssh_cipher_crypt X ctx inp = (case ctx of None \<Rightarrow> None | Some c \<Rightarrow> cipher_crypt X c inp)"

text \<open>
  Modelled from the spec: \<^verbatim>\<open>ssh_mac_compute(ctx, out, seq_num, data, len)\<close> of mac.c,
  which is not among the sources ("computes MAC(key, seq_num || plaintext_packet)", the
  sequence number "prepended to the MAC input as a 4-byte big-endian integer").
\<close>

definition ssh_mac_compute ::
  "('c, 'm) EXTERN \<Rightarrow> 'm option \<Rightarrow> u32 \<Rightarrow> u8 list \<Rightarrow> u8 list option" where
  "ssh_mac_compute X ctx seq packet =
     (case ctx of None \<Rightarrow> None | Some k \<Rightarrow> mac_digest X k (u32_be seq @ packet))"

text \<open>
  Modelled from the spec: the socket of network.c, which is not among the sources
  ("\<open>read_exact(n)\<close> and \<open>write_all(bytes)\<close>; both may fail with IoError. No partial
  reads exposed"). \<open>rx\<close> holds the octets the peer has sent and the stream has not read;
  a read of more than that fails (the connection ends first). \<open>tx\<close> collects what was
  written; writes fail when \<open>tx_open\<close> is false.
\<close>

record SOCK =
  rx :: "u8 list"
  tx :: "u8 list"
  tx_open :: bool

definition ssh_net_write_all :: "SOCK \<Rightarrow> u8 list \<Rightarrow> error + SOCK" where
  "ssh_net_write_all sock bs =
     (if tx_open sock then Inr (sock\<lparr>tx := tx sock @ bs\<rparr>) else Inl IoError)"

definition ssh_net_read_all :: "SOCK \<Rightarrow> nat \<Rightarrow> error + (u8 list \<times> SOCK)" where
  "ssh_net_read_all sock n =
     (if n \<le> length (rx sock) then Inr (take n (rx sock), sock\<lparr>rx := drop n (rx sock)\<rparr>)
      else Inl IoError)"

section \<open>The packet stream (stream.c)\<close>

text \<open>
  \<^verbatim>\<open>struct SSH_STREAM\<close> is declared in stream.h, which is not among the sources; its
  fields are the ones stream.c uses. \<^verbatim>\<open>cipher_block_len\<close> and \<^verbatim>\<open>mac_len\<close> are set from
  non-negative \<^verbatim>\<open>int\<close>s (\<^verbatim>\<open>ssh_stream_set_cipher\<close>, \<^verbatim>\<open>ssh_stream_set_mac\<close>) and are
  natural numbers here, converted to \<^verbatim>\<open>uint8_t\<close> or \<^verbatim>\<open>uint32_t\<close> where the C does. A
  context pointer is \<open>None\<close> when \<^verbatim>\<open>NULL\<close>.
\<close>

record ('c, 'm) SSH_STREAM =
  seq_num :: u32
  pack :: SSH_BUFFER
  pack_enc :: SSH_BUFFER
  net_buffer :: SSH_BUFFER
  cipher_type :: SSH_CIPHER_TYPE
  cipher_block_len :: nat
  cipher_ctx :: "'c option"
  mac_type :: SSH_MAC_TYPE
  mac_len :: nat
  mac_ctx :: "'m option"

definition ssh_stream_init :: "('c, 'm) SSH_STREAM" where
  "ssh_stream_init =
     \<lparr>seq_num = 0, pack = ssh_buf_new, pack_enc = ssh_buf_new, net_buffer = ssh_buf_new,
      cipher_type = SSH_CIPHER_NONE, cipher_block_len = 0, cipher_ctx = None,
      mac_type = SSH_MAC_NONE, mac_len = 0, mac_ctx = None\<rparr>"

definition ssh_stream_new_packet :: "('c, 'm) SSH_STREAM \<Rightarrow> ('c, 'm) SSH_STREAM" where
  "ssh_stream_new_packet s =
     s\<lparr>pack := ssh_buf_write_u8 (ssh_buf_write_u32 (ssh_buf_clear (pack s)) 0) 0\<rparr>"

text \<open>
  The caller of \<^verbatim>\<open>ssh_stream_new_packet\<close> writes the payload into the buffer it
  returns, which is the stream's \<^verbatim>\<open>pack\<close>.
\<close>

definition build_packet :: "('c, 'm) SSH_STREAM \<Rightarrow> u8 list \<Rightarrow> ('c, 'm) SSH_STREAM" where
  "build_packet s payload =
     (let s1 = ssh_stream_new_packet s in s1\<lparr>pack := ssh_buf_append (pack s1) payload\<rparr>)"

text \<open>
  \<^verbatim>\<open>calc_pad_len\<close>: the operands of \<^verbatim>\<open>block_size - pack_len_before_padding % block_size\<close>
  are converted to 32 bits unsigned, the result is cut to \<^verbatim>\<open>uint8_t\<close>, and
  \<^verbatim>\<open>pad_len += block_size\<close> wraps at 256.
\<close>

definition calc_pad_len :: "u32 \<Rightarrow> u8 \<Rightarrow> u8" where
  "calc_pad_len pack_len_before_padding block_size0 =
     (let block_size = (if block_size0 < 8 then 8 else block_size0);
          pad_len = (ucast ((ucast block_size :: u32)
                       - pack_len_before_padding mod ucast block_size) :: u8)
      in if pad_len < 4 then pad_len + block_size else pad_len)"

text \<open>\<^verbatim>\<open>finish_packet\<close>, lines 115 to 125: padding, length field, padding length.\<close>

definition finish_packet_pad ::
  "('c, 'm) EXTERN \<Rightarrow> ('c, 'm) SSH_STREAM \<Rightarrow> ('c, 'm) SSH_STREAM" where
  "finish_packet_pad X s =
     (let pad_len = calc_pad_len (of_nat (len (pack s))) (of_nat (cipher_block_len s));
          (p, pk1) = ssh_buf_get_write_pointer (pack s) (unat pad_len);
          fill = (if cipher_type s = SSH_CIPHER_NONE then replicate (unat pad_len) 0xff
                  else crypto_random_gen X (unat pad_len));
          pk2 = buf_fill pk1 p fill;
          pk3 = pk2\<lparr>data := ssh_buf_set_u32 (data pk2) (of_nat (len pk2) - 4)\<rparr>;
          pk4 = pk3\<lparr>data := mem_store (data pk3) 4 [pad_len]\<rparr>
      in s\<lparr>pack := pk4\<rparr>)"

text \<open>Lines 127 to 133: the whole of \<^verbatim>\<open>pack\<close> is encrypted into \<^verbatim>\<open>pack_enc\<close>.\<close>

definition finish_packet_encrypt ::
  "('c, 'm) EXTERN \<Rightarrow> ('c, 'm) SSH_STREAM \<Rightarrow> (error + unit) \<times> ('c, 'm) SSH_STREAM" where
  "finish_packet_encrypt X s =
     (if cipher_type s \<noteq> SSH_CIPHER_NONE then
        (let (p, pe) = ssh_buf_get_write_pointer (ssh_buf_clear (pack_enc s)) (len (pack s))
         in case ssh_cipher_crypt X (cipher_ctx s) (take (len (pack s)) (data (pack s))) of
              None \<Rightarrow> (Inl CipherError, s\<lparr>pack_enc := pe\<rparr>)
            | Some (ctx', out) \<Rightarrow>
                (Inr (), s\<lparr>pack_enc := buf_fill pe p out, cipher_ctx := Some ctx'\<rparr>))
      else (Inr (), s))"

text \<open>
  Lines 135 to 144: the MAC of \<^verbatim>\<open>seq_num\<close> and the whole of \<^verbatim>\<open>pack\<close> is stored past the
  nominal end of the buffer that will be written to the socket.
\<close>

definition finish_packet_mac ::
  "('c, 'm) EXTERN \<Rightarrow> ('c, 'm) SSH_STREAM \<Rightarrow> (error + unit) \<times> ('c, 'm) SSH_STREAM" where
  "finish_packet_mac X s =
     (if mac_type s \<noteq> SSH_MAC_NONE then
        (let plain = (cipher_type s = SSH_CIPHER_NONE);
             write_pack = ssh_buf_grow (if plain then pack s else pack_enc s) (mac_len s)
         in case ssh_mac_compute X (mac_ctx s) (seq_num s)
                   (take (len (pack s)) (data (pack s))) of
              None \<Rightarrow> (Inl MacError, s)
            | Some digest \<Rightarrow>
                (let wp = buf_fill write_pack (len write_pack) digest
                 in (Inr (), if plain then s\<lparr>pack := wp\<rparr> else s\<lparr>pack_enc := wp\<rparr>)))
      else (Inr (), s))"

definition finish_packet ::
  "('c, 'm) EXTERN \<Rightarrow> ('c, 'm) SSH_STREAM \<Rightarrow> (error + unit) \<times> ('c, 'm) SSH_STREAM" where
  "finish_packet X s =
     (case finish_packet_encrypt X (finish_packet_pad X s) of
        (Inl e, s1) \<Rightarrow> (Inl e, s1)
      | (Inr u, s1) \<Rightarrow> finish_packet_mac X s1)"

definition ssh_stream_send_packet ::
  "('c, 'm) EXTERN \<Rightarrow> ('c, 'm) SSH_STREAM \<Rightarrow> SOCK
     \<Rightarrow> (error + unit) \<times> ('c, 'm) SSH_STREAM \<times> SOCK" where
  "ssh_stream_send_packet X s sock =
     (case finish_packet X s of
        (Inl e, s1) \<Rightarrow> (Inl e, s1, sock)
      | (Inr u, s1) \<Rightarrow>
          (let s2 = s1\<lparr>seq_num := seq_num s1 + 1\<rparr>;
               write_pack = (if cipher_type s = SSH_CIPHER_NONE then pack s2 else pack_enc s2)
           in case ssh_net_write_all sock
                     (take (len write_pack + mac_len s2) (data write_pack)) of
                Inl e \<Rightarrow> (Inl e, s2, sock)
              | Inr sock' \<Rightarrow> (Inr (), s2, sock')))"

text \<open>
  \<^verbatim>\<open>verify_read_packet\<close>. \<^verbatim>\<open>stream->pack.len-5\<close> is unsigned: below 5 it wraps to a
  huge value and the comparison with the padding length is false. \<^verbatim>\<open>block_len\<close> is a
  \<^verbatim>\<open>uint8_t\<close>; where it is 0 (a cipher block length that is a non-zero multiple of 256)
  the remainder of line 178 is a division by zero. \<^verbatim>\<open>memcmp\<close> compares the first
  \<^verbatim>\<open>mac_len\<close> octets of the digest with the octets past the nominal end.
\<close>

definition verify_read_packet ::
  "('c, 'm) EXTERN \<Rightarrow> ('c, 'm) SSH_STREAM \<Rightarrow> error + unit" where
  "verify_read_packet X s =
     (let pad = data (pack s) ! 4;
          block_len = (if cipher_block_len s \<noteq> 0 then of_nat (cipher_block_len s) else 8 :: u8)
      in if pad < 4 \<or> (5 \<le> len (pack s) \<and> unat pad > len (pack s) - 5)
         then Inl InvalidPadding
         else if block_len = 0 then Inl UndefinedBehaviour
         else if len (pack s) mod unat block_len \<noteq> 0 then Inl UnalignedLength
         else if mac_type s \<noteq> SSH_MAC_NONE then
           (case ssh_mac_compute X (mac_ctx s) (seq_num s)
                   (take (len (pack s)) (data (pack s))) of
              None \<Rightarrow> Inl MacError
            | Some digest \<Rightarrow>
                if take (mac_len s) digest
                     \<noteq> take (mac_len s) (drop (len (pack s)) (data (pack s)))
                then Inl MacMismatch else Inr ())
         else Inr ())"

text \<open>
  \<^verbatim>\<open>stream_recv_data\<close>: the octets come from the read-ahead buffer first, then from the
  socket. The model returns the octets; the caller stores them where the C's \<^verbatim>\<open>data\<close>
  pointer points. The \<^verbatim>\<open>memcpy\<close> of line 209 comes before everything that can fail, so
  a failure returns, with the error, the octets that have already been copied from the
  read-ahead buffer, and the caller stores those too. What a failed
  \<^verbatim>\<open>ssh_net_read_all\<close> (net.c, not among the sources) has written after them is not
  known.
\<close>

definition stream_recv_data ::
  "('c, 'm) SSH_STREAM \<Rightarrow> SOCK \<Rightarrow> nat
     \<Rightarrow> (error \<times> u8 list + u8 list) \<times> ('c, 'm) SSH_STREAM \<times> SOCK" where
  "stream_recv_data s sock data_len =
     (let nb = net_buffer s;
          len_from_buffer = (if len nb > 0 then min (len nb) data_len else 0);
          from_buffer = take len_from_buffer (data nb)
      in case (if len nb > 0 then ssh_buf_remove_data nb 0 len_from_buffer else Some nb) of
           None \<Rightarrow> (Inl (BufferError, from_buffer), s, sock)
         | Some nb' \<Rightarrow>
             (let s1 = s\<lparr>net_buffer := nb'\<rparr>;
                  rest = data_len - len_from_buffer
              in if rest > 0 then
                   (case ssh_net_read_all sock rest of
                      Inl e \<Rightarrow> (Inl (e, from_buffer), s1, sock)
                    | Inr (bs, sock') \<Rightarrow> (Inr (from_buffer @ bs), s1, sock'))
                 else (Inr from_buffer, s1, sock)))"

text \<open>
  \<^verbatim>\<open>read_pack\<close> points to \<^verbatim>\<open>pack\<close> when no cipher is installed and to \<^verbatim>\<open>pack_enc\<close>
  otherwise.
\<close>

definition read_pack :: "('c, 'm) SSH_STREAM \<Rightarrow> SSH_BUFFER" where
  "read_pack s = (if cipher_type s = SSH_CIPHER_NONE then pack s else pack_enc s)"

definition set_read_pack :: "('c, 'm) SSH_STREAM \<Rightarrow> SSH_BUFFER \<Rightarrow> ('c, 'm) SSH_STREAM" where
  "set_read_pack s b = (if cipher_type s = SSH_CIPHER_NONE then s\<lparr>pack := b\<rparr> else s\<lparr>pack_enc := b\<rparr>)"

text \<open>\<^verbatim>\<open>ssh_stream_recv_packet\<close>, lines 235 to 250: the first block, read and decrypted.\<close>

definition recv_first_block ::
  "('c, 'm) EXTERN \<Rightarrow> ('c, 'm) SSH_STREAM \<Rightarrow> SOCK \<Rightarrow> u32
     \<Rightarrow> (error + unit) \<times> ('c, 'm) SSH_STREAM \<times> SOCK" where
  "recv_first_block X s sock first_block_len =
     (let (p, rp) = ssh_buf_get_write_pointer (ssh_buf_clear (read_pack s)) (unat first_block_len);
          s1 = set_read_pack s rp
      in case stream_recv_data s1 sock (unat first_block_len) of
           (Inl (e, bs), s2, sock') \<Rightarrow>
             (Inl e, set_read_pack s2 (buf_fill (read_pack s2) p bs), sock')
         | (Inr bs, s2, sock') \<Rightarrow>
             (let s3 = set_read_pack s2 (buf_fill (read_pack s2) p bs)
              in if cipher_type s3 \<noteq> SSH_CIPHER_NONE then
                   (let (q, pk) = ssh_buf_get_write_pointer (ssh_buf_clear (pack s3))
                                    (unat first_block_len);
                        s4 = s3\<lparr>pack := pk\<rparr>
                    in case ssh_cipher_crypt X (cipher_ctx s4)
                              (take (len (read_pack s4)) (data (read_pack s4))) of
                         None \<Rightarrow> (Inl CipherError, s4, sock')
                       | Some (ctx', out) \<Rightarrow>
                           (Inr (), s4\<lparr>pack := buf_fill pk q out, cipher_ctx := Some ctx'\<rparr>, sock'))
                 else (Inr (), s3, sock')))"

text \<open>
  Lines 259 to 275: the rest of the packet and the MAC are read, the rest is decrypted,
  and the MAC is copied past the nominal end of \<^verbatim>\<open>pack\<close>. \<^verbatim>\<open>remainder_len\<close> is computed
  in 32 bits unsigned, and nothing before line 260 compares the length field with the
  first block. So where \<^verbatim>\<open>pack_len + mac_len + 4\<close> is below \<^verbatim>\<open>first_block_len\<close> the
  subtraction of line 260 wraps and nearly 4 GiB are asked of the socket. Where only
  \<^verbatim>\<open>pack_len + 4\<close> is below \<^verbatim>\<open>first_block_len\<close>, \<^verbatim>\<open>remainder_len\<close> is less than
  \<^verbatim>\<open>mac_len\<close> and, with a cipher, it is the subtraction of lines 269 and 271 that wraps:
  \<^verbatim>\<open>ssh_cipher_crypt\<close> is told to read that many octets from a buffer for which
  \<^verbatim>\<open>remainder_len\<close> were reserved, which is a read past its end.
\<close>

definition recv_rest ::
  "('c, 'm) EXTERN \<Rightarrow> ('c, 'm) SSH_STREAM \<Rightarrow> SOCK \<Rightarrow> u32 \<Rightarrow> u32
     \<Rightarrow> (error + unit) \<times> ('c, 'm) SSH_STREAM \<times> SOCK" where
  "recv_rest X s sock first_block_len pack_len =
     (let remainder_len = pack_len + of_nat (mac_len s) - first_block_len + 4;
          (p, rp) = ssh_buf_get_write_pointer (read_pack s) (unat remainder_len);
          s1 = set_read_pack s rp
      in case stream_recv_data s1 sock (unat remainder_len) of
           (Inl (e, bs), s2, sock') \<Rightarrow>
             (Inl e, set_read_pack s2 (buf_fill (read_pack s2) p bs), sock')
         | (Inr bs, s2, sock') \<Rightarrow>
             (let s3 = set_read_pack s2 ((buf_fill (read_pack s2) p bs)\<lparr>len := unat (pack_len + 4)\<rparr>)
              in if cipher_type s3 \<noteq> SSH_CIPHER_NONE then
                   (let n = unat (remainder_len - of_nat (mac_len s3));
                        (q, pk) = ssh_buf_get_write_pointer (pack s3) n;
                        s4 = s3\<lparr>pack := pk\<rparr>
                    in if unat remainder_len < mac_len s3 then (Inl UndefinedBehaviour, s4, sock')
                       else case ssh_cipher_crypt X (cipher_ctx s4)
                              (take n (drop (unat first_block_len) (data (read_pack s4)))) of
                         None \<Rightarrow> (Inl CipherError, s4, sock')
                       | Some (ctx', out) \<Rightarrow>
                           (let pk1 = buf_fill pk q out;
                                pk2 = buf_fill pk1 (unat (pack_len + 4))
                                        (take (mac_len s4)
                                           (drop (unat (pack_len + 4)) (data (read_pack s4))))
                            in (Inr (),
                                s4\<lparr>pack := pk2\<lparr>len := unat (pack_len + 4)\<rparr>, cipher_ctx := Some ctx'\<rparr>,
                                sock')))
                 else (Inr (), s3, sock')))"

definition ssh_stream_recv_packet ::
  "('c, 'm) EXTERN \<Rightarrow> ('c, 'm) SSH_STREAM \<Rightarrow> SOCK
     \<Rightarrow> (error + unit) \<times> ('c, 'm) SSH_STREAM \<times> SOCK" where
  "ssh_stream_recv_packet X s sock =
     (let first_block_len = (if cipher_block_len s = 0 then 8 else of_nat (cipher_block_len s) :: u32)
      in case recv_first_block X s sock first_block_len of
           (Inl e, s1, sock1) \<Rightarrow> (Inl e, s1, sock1)
         | (Inr u, s1, sock1) \<Rightarrow>
             (let pack_len = ssh_buf_get_u32 (data (pack s1))
              in if pack_len = 0 \<or> pack_len > 65536 then (Inl InvalidLength, s1, sock1)
                 else case recv_rest X s1 sock1 first_block_len pack_len of
                        (Inl e, s2, sock2) \<Rightarrow> (Inl e, s2, sock2)
                      | (Inr u, s2, sock2) \<Rightarrow>
                          (case verify_read_packet X s2 of
                             Inl e \<Rightarrow> (Inl e, s2, sock2)
                           | Inr u \<Rightarrow> (Inr (), s2\<lparr>seq_num := seq_num s2 + 1\<rparr>, sock2))))"

text \<open>
  Modelled from the spec: the payload of a received packet, which the callers of
  \<^verbatim>\<open>ssh_stream_recv_packet\<close> (not among the sources) read from \<^verbatim>\<open>pack\<close>: "the octets
  at offset 5 through \<open>pack_len + 4 - pad_len\<close> (exclusive)", where \<open>pack_len + 4\<close> is
  the nominal length of \<^verbatim>\<open>pack\<close> and \<open>pad_len\<close> its fifth octet.
\<close>

definition recv_payload :: "('c, 'm) SSH_STREAM \<Rightarrow> u8 list" where
  "recv_payload s =
     take (len (pack s) - unat (data (pack s) ! 4) - 5) (drop 5 (data (pack s)))"

section \<open>The exchange hash (kex_dh.c)\<close>

text \<open>
  Modelled from the spec: the writers \<^verbatim>\<open>ssh_buf_write_data\<close>, \<^verbatim>\<open>ssh_buf_write_buffer\<close>
  and \<^verbatim>\<open>ssh_buf_write_string\<close> of buffer.c, which is not among the sources. The
  specification has every element of the exchange hash "encoded as an SSH string (u32
  length prefix + bytes)" and \<open>write_string\<close> write the "4-byte length then bytes";
  the three writers differ in how the octets are handed over (a pointer and a length, a
  buffer, a \<^verbatim>\<open>struct SSH_STRING\<close>). A \<^verbatim>\<open>struct SSH_STRING\<close> and a
  \<^verbatim>\<open>struct SSH_VERSION_STRING\<close> are the list of their octets.
\<close>

definition ssh_buf_write_data :: "SSH_BUFFER \<Rightarrow> u8 list \<Rightarrow> SSH_BUFFER" where
  "ssh_buf_write_data b octets =
     ssh_buf_append (ssh_buf_write_u32 b (of_nat (length octets))) octets"

definition ssh_buf_write_buffer :: "SSH_BUFFER \<Rightarrow> SSH_BUFFER \<Rightarrow> SSH_BUFFER" where
  "ssh_buf_write_buffer b src = ssh_buf_write_data b (take (len src) (data src))"

definition ssh_buf_write_string :: "SSH_BUFFER \<Rightarrow> u8 list \<Rightarrow> SSH_BUFFER" where
  "ssh_buf_write_string b str = ssh_buf_write_data b str"

text \<open>
  What \<^verbatim>\<open>dh_kex_hash\<close> reads of the connection (the two version strings, through
  \<^verbatim>\<open>ssh_conn_get_client_version_string\<close> and its server twin) and of the key exchange
  (the two KEXINIT payloads as they were exchanged).
\<close>

record SSH_CONN =
  client_version_string :: "u8 list"
  server_version_string :: "u8 list"

record SSH_KEX =
  client_kexinit :: SSH_BUFFER
  server_kexinit :: SSH_BUFFER

text \<open>
  \<^verbatim>\<open>dh_kex_hash\<close>. The hash function is a parameter (\<^verbatim>\<open>ssh_hash_compute\<close>, which may
  fail); \<^verbatim>\<open>ssh_str_new_from_buffer\<close> takes the octets the buffer nominally holds.
\<close>

definition dh_kex_hash ::
  "('h \<Rightarrow> u8 list \<Rightarrow> u8 list option) \<Rightarrow> 'h \<Rightarrow> u8 list \<Rightarrow> u8 list \<Rightarrow> u8 list \<Rightarrow> u8 list
     \<Rightarrow> SSH_CONN \<Rightarrow> SSH_KEX \<Rightarrow> error + u8 list" where
  "dh_kex_hash ssh_hash_compute hash_type server_host_key client_pubkey server_pubkey
       shared_secret conn kex =
     (let client_version = client_version_string conn;
          server_version = server_version_string conn;
          d0 = ssh_buf_new;
          d1 = ssh_buf_write_data d0 client_version;
          d2 = ssh_buf_write_data d1 server_version;
          d3 = ssh_buf_write_buffer d2 (client_kexinit kex);
          d4 = ssh_buf_write_buffer d3 (server_kexinit kex);
          d5 = ssh_buf_write_string d4 server_host_key;
          d6 = ssh_buf_write_string d5 client_pubkey;
          d7 = ssh_buf_write_string d6 server_pubkey;
          d8 = ssh_buf_write_string d7 shared_secret;
          data_str = take (len d8) (data d8)
      in case ssh_hash_compute hash_type data_str of
           None \<Rightarrow> Inl HashError
         | Some hash \<Rightarrow> Inr hash)"

section \<open>The wire format, in the words of the specification\<close>

text \<open>
  Section 4.2 of the specification, step 1: "\<open>pad_len = block - ((payload_len + 5) mod
  block)\<close>, with \<open>block = max(cipher_block_len, 8)\<close>. If the result is < 4, add \<open>block\<close>
  to it."
\<close>

definition wire_block :: "nat \<Rightarrow> nat" where
  "wire_block cipher_block = max cipher_block 8"

definition wire_pad_len :: "nat \<Rightarrow> nat \<Rightarrow> nat" where
  "wire_pad_len cipher_block payload_len =
     (let block = wire_block cipher_block;
          r = block - (payload_len + 5) mod block
      in if r < 4 then r + block else r)"

text \<open>
  Step 2: the padding is "random bytes when a cipher is installed, and a fixed filler
  (e.g. 0xFF) when cipher is none".
\<close>

definition wire_padding :: "('c, 'm) EXTERN \<Rightarrow> SSH_CIPHER_TYPE \<Rightarrow> nat \<Rightarrow> u8 list" where
  "wire_padding X ct n =
     (if ct = SSH_CIPHER_NONE then replicate n 0xff else crypto_random_gen X n)"

text \<open>
  Section 6: \<open>packet_length\<close> (= 1 + payload length + padding length) in four octets,
  \<open>padding_length\<close> in one, the payload, the padding.
\<close>

definition wire_packet :: "u8 list \<Rightarrow> u8 list \<Rightarrow> u8 list" where
  "wire_packet payload padding =
     u32_be (of_nat (1 + length payload + length padding)) @ [of_nat (length padding)]
       @ payload @ padding"

text \<open>The unencrypted packet a stream frames around a payload.\<close>

definition plain_packet ::
  "('c, 'm) EXTERN \<Rightarrow> ('c, 'm) SSH_STREAM \<Rightarrow> u8 list \<Rightarrow> u8 list" where
  "plain_packet X s payload =
     wire_packet payload
       (wire_padding X (cipher_type s) (wire_pad_len (cipher_block_len s) (length payload)))"

text \<open>
  Steps 4 to 6: what one send puts on the wire, "ciphertext-or-cleartext followed by
  MAC": the packet itself or its encryption under the stream's cipher context, then
  the first \<open>mac_len\<close> octets of the MAC of the sequence number and the unencrypted
  packet.
\<close>

definition wire_body :: "('c, 'm) EXTERN \<Rightarrow> ('c, 'm) SSH_STREAM \<Rightarrow> u8 list \<Rightarrow> u8 list" where
  "wire_body X s packet =
     (if cipher_type s = SSH_CIPHER_NONE then packet
      else case ssh_cipher_crypt X (cipher_ctx s) packet of
             None \<Rightarrow> [] | Some (ctx', out) \<Rightarrow> out)"

definition wire_mac :: "('c, 'm) EXTERN \<Rightarrow> ('c, 'm) SSH_STREAM \<Rightarrow> u8 list \<Rightarrow> u8 list" where
  "wire_mac X s packet =
     (if mac_type s = SSH_MAC_NONE then []
      else case ssh_mac_compute X (mac_ctx s) (seq_num s) packet of
             None \<Rightarrow> [] | Some digest \<Rightarrow> take (mac_len s) digest)"

definition sent_octets :: "('c, 'm) EXTERN \<Rightarrow> ('c, 'm) SSH_STREAM \<Rightarrow> u8 list \<Rightarrow> u8 list" where
  "sent_octets X s payload =
     wire_body X s (plain_packet X s payload) @ wire_mac X s (plain_packet X s payload)"

text \<open>
  The contract of the cryptographic library: the cipher returns as many octets as it
  is given, and a digest has the length the stream keeps in \<^verbatim>\<open>mac_len\<close>.
\<close>

definition cipher_keeps_length :: "('c, 'm) EXTERN \<Rightarrow> bool" where
  "cipher_keeps_length X =
     (\<forall>c inp c' out. cipher_crypt X c inp = Some (c', out) \<longrightarrow> length out = length inp)"

definition digest_length :: "('c, 'm) EXTERN \<Rightarrow> nat \<Rightarrow> bool" where
  "digest_length X n =
     (\<forall>k msg digest. mac_digest X k msg = Some digest \<longrightarrow> length digest = n)"

text \<open>The octets a stream reads next: the read-ahead buffer first, then the socket.\<close>

definition pending :: "('c, 'm) SSH_STREAM \<Rightarrow> SOCK \<Rightarrow> u8 list" where
  "pending s sock = contents (net_buffer s) @ rx sock"

text \<open>
  What \<^verbatim>\<open>stream_recv_data\<close> leaves of the read-ahead buffer and of the socket after
  \<open>n\<close> octets have been read.
\<close>

definition buffer_after :: "SSH_BUFFER \<Rightarrow> nat \<Rightarrow> SSH_BUFFER" where
  "buffer_after nb n =
     (if len nb > 0
      then \<lparr>data = drop (min (len nb) n) (data nb), len = len nb - min (len nb) n\<rparr>
      else nb)"

definition sock_after :: "SSH_BUFFER \<Rightarrow> SOCK \<Rightarrow> nat \<Rightarrow> SOCK" where
  "sock_after nb sock n = sock\<lparr>rx := drop (n - len nb) (rx sock)\<rparr>"

section \<open>Streams with matching keys\<close>

text \<open>
  The invariants of section 3 a stream is expected to keep: a cipher block length of 0
  (no cipher) or at least 8, and below 253 so that the padding length fits its octet;
  a MAC length that fits the 32-bit arithmetic of the receiver, and no MAC octets when
  no MAC is installed.
\<close>

definition stream_ok :: "('c, 'm) SSH_STREAM \<Rightarrow> bool" where
  "stream_ok s =
     ((cipher_block_len s = 0 \<or> 8 \<le> cipher_block_len s) \<and> cipher_block_len s \<le> 252
      \<and> mac_len s < 2 ^ 31 \<and> (mac_type s = SSH_MAC_NONE \<longrightarrow> mac_len s = 0))"

text \<open>
  A decrypting context \<open>cd\<close> matches an encrypting context \<open>ce\<close> for block length
  \<open>b\<close>: whatever whole number of blocks \<open>ce\<close> encrypts in one call, \<open>cd\<close> decrypts
  in two, the first block and then the rest, as \<^verbatim>\<open>ssh_stream_recv_packet\<close> does.
\<close>

definition cipher_pair :: "('c, 'm) EXTERN \<Rightarrow> 'c option \<Rightarrow> 'c option \<Rightarrow> nat \<Rightarrow> bool" where
  "cipher_pair X ce cd b =
     (\<forall>p. p \<noteq> [] \<and> length p mod b = 0 \<longrightarrow>
        (\<exists>ce' c1 c2 enc.
           ssh_cipher_crypt X ce p = Some (ce', enc) \<and> length enc = length p
           \<and> ssh_cipher_crypt X cd (take b enc) = Some (c1, take b p)
           \<and> cipher_crypt X c1 (drop b enc) = Some (c2, drop b p)))"

text \<open>The MAC context of a stream with a MAC installed gives every message a digest of \<open>mac_len\<close> octets.\<close>

definition mac_ready :: "('c, 'm) EXTERN \<Rightarrow> ('c, 'm) SSH_STREAM \<Rightarrow> bool" where
  "mac_ready X s =
     (mac_type s \<noteq> SSH_MAC_NONE \<longrightarrow>
        (\<exists>k. mac_ctx s = Some k
           \<and> (\<forall>msg. \<exists>digest. mac_digest X k msg = Some digest \<and> length digest = mac_len s)))"

text \<open>
  A receiving stream matches a sending stream: the same algorithms, the same MAC key,
  matching cipher contexts and the same sequence number.
\<close>

definition matching_keys ::
  "('c, 'm) EXTERN \<Rightarrow> ('c, 'm) SSH_STREAM \<Rightarrow> ('c, 'm) SSH_STREAM \<Rightarrow> bool" where
  "matching_keys X sender receiver =
     (cipher_type receiver = cipher_type sender
      \<and> cipher_block_len receiver = cipher_block_len sender
      \<and> mac_type receiver = mac_type sender \<and> mac_len receiver = mac_len sender
      \<and> mac_ctx receiver = mac_ctx sender \<and> seq_num receiver = seq_num sender
      \<and> (cipher_type sender \<noteq> SSH_CIPHER_NONE \<longrightarrow>
            cipher_pair X (cipher_ctx sender) (cipher_ctx receiver)
              (wire_block (cipher_block_len sender))))"

text \<open>A stream on which no keys have been installed.\<close>

definition no_keys :: "('c, 'm) SSH_STREAM \<Rightarrow> bool" where
  "no_keys s =
     (cipher_type s = SSH_CIPHER_NONE \<and> cipher_block_len s = 0 \<and> cipher_ctx s = None
      \<and> mac_type s = SSH_MAC_NONE \<and> mac_len s = 0 \<and> mac_ctx s = None)"

section \<open>The exchange hash, in the words of the specification\<close>

text \<open>An SSH \<open>string\<close>: "4-byte big-endian length prefix followed by length octets".\<close>

definition ssh_string :: "u8 list \<Rightarrow> u8 list" where
  "ssh_string octets = u32_be (of_nat (length octets)) @ octets"

text \<open>
  Section 4.5: "\<open>H = Hash(V_C || V_S || I_C || I_S || K_S || e || f || K)\<close>, where each
  element is encoded as an SSH string".
\<close>

definition exchange_hash_input ::
  "u8 list \<Rightarrow> u8 list \<Rightarrow> u8 list \<Rightarrow> u8 list \<Rightarrow> u8 list \<Rightarrow> u8 list \<Rightarrow> u8 list \<Rightarrow> u8 list
     \<Rightarrow> u8 list" where
  "exchange_hash_input v_c v_s i_c i_s k_s e f k =
     ssh_string v_c @ ssh_string v_s @ ssh_string i_c @ ssh_string i_s
       @ ssh_string k_s @ ssh_string e @ ssh_string f @ ssh_string k"

section \<open>A small instance for concrete packets\<close>

text \<open>
  An instance of the library on which packets can be computed: the cipher combines
  every octet with the one-octet key by exclusive or and keeps its context, the digest
  is the key added to the octets of the message, followed by the length of the message
  (two octets in all), and the \<open>i\<close>-th random octet is \<open>i\<close>.
\<close>

definition toy_crypt :: "u8 \<Rightarrow> u8 list \<Rightarrow> (u8 \<times> u8 list) option" where
  "toy_crypt key inp = Some (key, map (\<lambda>b. b XOR key) inp)"

definition toy_digest :: "u8 \<Rightarrow> u8 list \<Rightarrow> u8 list option" where
  "toy_digest key msg = Some [foldr (+) msg key, of_nat (length msg)]"

definition toy_extern :: "(u8, u8) EXTERN" where
  "toy_extern = \<lparr>cipher_crypt = toy_crypt, mac_digest = toy_digest, random_octet = of_nat\<rparr>"

text \<open>A stream as \<^verbatim>\<open>ssh_stream_init\<close> leaves it, and one with the toy cipher and MAC installed.\<close>

definition fresh_stream :: "(u8, u8) SSH_STREAM" where
  "fresh_stream = ssh_stream_init"

definition keyed_stream :: "(u8, u8) SSH_STREAM" where
  "keyed_stream =
     ssh_stream_init\<lparr>seq_num := 7, cipher_type := SSH_CIPHER_ALGO 1, cipher_block_len := 8,
       cipher_ctx := Some 0x5a, mac_type := SSH_MAC_ALGO 1, mac_len := 2, mac_ctx := Some 3\<rparr>"

text \<open>The payload of the specification's first scenario: 05 'h' 'e' 'l' 'l' 'o'.\<close>

definition hello :: "u8 list" where
  "hello = [0x05, 0x68, 0x65, 0x6c, 0x6c, 0x6f]"

definition open_sock :: SOCK where
  "open_sock = \<lparr>rx = [], tx = [], tx_open = True\<rparr>"

definition closed_sock :: SOCK where
  "closed_sock = \<lparr>rx = [], tx = [], tx_open = False\<rparr>"

definition sock_with :: "u8 list \<Rightarrow> SOCK" where
  "sock_with octets = \<lparr>rx = octets, tx = [], tx_open = True\<rparr>"

text \<open>
  What the keyed stream sends for that payload, with the last bit of the payload's last
  octet flipped in transit (0x35 has become 0x34).
\<close>

definition tampered_wire :: "u8 list" where
  "tampered_wire = [0x5a, 0x5a, 0x5a, 0x56, 0x5f, 0x5f, 0x32, 0x3f, 0x36, 0x36, 0x34,
                    0x5a, 0x5b, 0x58, 0x59, 0x5e, 0x3e, 0x14]"

text \<open>
  The sixteen octets a fresh stream sends for that payload, and the first block of a
  packet that announces a length of 65537.
\<close>

definition hello_wire :: "u8 list" where
  "hello_wire = [0x00, 0x00, 0x00, 0x0c, 0x05, 0x05, 0x68, 0x65, 0x6c, 0x6c, 0x6f,
                 0xff, 0xff, 0xff, 0xff, 0xff]"

definition oversize_wire :: "u8 list" where
  "oversize_wire = [0x00, 0x01, 0x00, 0x01, 0x04, 0x00, 0x00, 0x00]"

text \<open>What the keyed stream sends for that payload.\<close>

definition keyed_wire :: "u8 list" where
  "keyed_wire = [0x5a, 0x5a, 0x5a, 0x56, 0x5f, 0x5f, 0x32, 0x3f, 0x36, 0x36, 0x35,
                 0x5a, 0x5b, 0x58, 0x59, 0x5e, 0x3e, 0x14]"

text \<open>
  What the keyed stream sends for that payload, with the first octet of the MAC altered
  (0x3e has become 0x3f), and with the last one altered (0x14 has become 0x15).
\<close>

definition mac_first_wrong :: "u8 list" where
  "mac_first_wrong = [0x5a, 0x5a, 0x5a, 0x56, 0x5f, 0x5f, 0x32, 0x3f, 0x36, 0x36, 0x35,
                      0x5a, 0x5b, 0x58, 0x59, 0x5e, 0x3f, 0x14]"

definition mac_last_wrong :: "u8 list" where
  "mac_last_wrong = [0x5a, 0x5a, 0x5a, 0x56, 0x5f, 0x5f, 0x32, 0x3f, 0x36, 0x36, 0x35,
                     0x5a, 0x5b, 0x58, 0x59, 0x5e, 0x3e, 0x15]"

section \<open>Padding arithmetic\<close>

lemma unat_calc_pad_len:
  assumes "unat b \<le> 252"
  shows "unat (calc_pad_len n b) =
     (let blk = max (unat b) 8; r = blk - unat n mod blk in if r < 4 then r + blk else r)"
proof -
  define blk where "blk = max (unat b) 8"
  define B :: u8 where "B = (if b < 8 then 8 else b)"
  have B: "unat B = blk" unfolding B_def blk_def
    by (auto simp: word_less_nat_alt max_def)
  have blk: "8 \<le> blk" "blk \<le> 252" using assms by (auto simp: blk_def)
  have uB: "unat (ucast B :: u32) = blk"
    using B blk by (simp add: unsigned_ucast_eq take_bit_eq_mod)
  have m: "unat (n mod ucast B) = unat n mod blk" by (simp add: unat_mod uB)
  have lt: "unat n mod blk < blk" using blk by simp
  have le: "n mod ucast B \<le> (ucast B :: u32)"
    using lt by (simp add: word_le_nat_alt m uB)
  have s: "unat ((ucast B :: u32) - n mod ucast B) = blk - unat n mod blk"
    using le by (simp add: unat_sub m uB)
  define r where "r = blk - unat n mod blk"
  have r: "1 \<le> r" "r \<le> blk" using lt by (auto simp: r_def)
  have p: "unat (ucast ((ucast B :: u32) - n mod ucast B) :: u8) = r"
    using s r blk by (simp add: unsigned_ucast_eq take_bit_eq_mod r_def)
  define P :: u8 where "P = ucast ((ucast B :: u32) - n mod ucast B)"
  have c: "calc_pad_len n b = (if P < 4 then P + B else P)"
    by (simp add: calc_pad_len_def Let_def B_def P_def)
  have P: "unat P = r" using p by (simp add: P_def)
  have PB: "unat (P + B) = r + blk" if "r < 4"
    using that blk by (simp add: unat_word_ariths P B)
  have "unat (calc_pad_len n b) = (if r < 4 then r + blk else r)"
    using PB by (simp add: c word_less_nat_alt P)
  then show ?thesis by (simp add: Let_def blk_def r_def)
qed


text \<open>
  Above 252 the bound is lost: with a block length of 255 and 252 octets before the
  padding, 3 + 255 wraps in \<^verbatim>\<open>uint8_t\<close>.
\<close>

lemma calc_pad_len_wraps: "calc_pad_len 252 255 = 2"
  by (simp add: calc_pad_len_def)

section \<open>The framed packet\<close>


lemma mem_store_0: "mem_store mem 0 bs = bs @ drop (length bs) mem"
  by (simp add: mem_store_def)

lemma mem_store_end:
  "off = length pre \<Longrightarrow> mem_store (pre @ rest) off bs = pre @ bs @ drop (length bs) rest"
  by (simp add: mem_store_def)

lemma length_u32_be [simp]: "length (u32_be v) = 4"
  by (simp add: u32_be_def)

lemma ssh_buf_get_u32_be: "ssh_buf_get_u32 (u32_be v @ rest) = v"
  apply (simp add: ssh_buf_get_u32_def u32_be_def)
  apply (rule bit_word_eqI)
  subgoal for n
    by (cases "n < 8"; cases "n < 16"; cases "n < 24") (auto simp: bit_simps)
  done

lemma length_crypto_random_gen [simp]: "length (crypto_random_gen X n) = n"
  by (simp add: crypto_random_gen_def)

lemma u32_be_0: "u32_be 0 = [0, 0, 0, 0]"
  by (simp add: u32_be_def)

lemma build_packet_pack:
  "\<exists>junk. pack (build_packet s payload) =
     \<lparr>data = [0, 0, 0, 0, 0] @ payload @ junk, len = 5 + length payload\<rparr>"
  by (cases "pack s")
     (simp add: build_packet_def ssh_stream_new_packet_def ssh_buf_write_u8_def
      ssh_buf_write_u32_def ssh_buf_append_def ssh_buf_get_write_pointer_def buf_fill_def
      ssh_buf_clear_def mem_store_def u32_be_0)

lemma build_packet_fields:
  "seq_num (build_packet s payload) = seq_num s"
  "cipher_type (build_packet s payload) = cipher_type s"
  "cipher_block_len (build_packet s payload) = cipher_block_len s"
  "cipher_ctx (build_packet s payload) = cipher_ctx s"
  "mac_type (build_packet s payload) = mac_type s"
  "mac_len (build_packet s payload) = mac_len s"
  "mac_ctx (build_packet s payload) = mac_ctx s"
  "pack_enc (build_packet s payload) = pack_enc s"
  "net_buffer (build_packet s payload) = net_buffer s"
  by (simp_all add: build_packet_def ssh_stream_new_packet_def Let_def)

lemma finish_packet_pad_pack:
  assumes pk: "pack s = \<lparr>data = hdr @ payload @ junk, len = 5 + length payload\<rparr>"
    and hdr: "length hdr = 5"
    and pad: "pad = calc_pad_len (of_nat (5 + length payload)) (of_nat (cipher_block_len s))"
    and fill: "fill = (if cipher_type s = SSH_CIPHER_NONE then replicate (unat pad) 0xff
                  else crypto_random_gen X (unat pad))"
  shows "pack (finish_packet_pad X s) =
     \<lparr>data = u32_be (of_nat (5 + length payload + unat pad) - 4) @ [pad] @ payload @ fill
               @ drop (unat pad) junk,
      len = 5 + length payload + unat pad\<rparr>"
  by (simp add: finish_packet_pad_def Let_def pk hdr pad fill
        ssh_buf_get_write_pointer_def buf_fill_def ssh_buf_set_u32_def mem_store_def)


lemma wire_block_ge: "8 \<le> wire_block c"
  by (simp add: wire_block_def)

lemma wire_pad_len_bounds:
  assumes "c \<le> 252"
  shows "4 \<le> wire_pad_len c n" and "wire_pad_len c n \<le> 255"
    and "(5 + n + wire_pad_len c n) mod wire_block c = 0"
proof -
  define blk where "blk = wire_block c"
  define m where "m = (n + 5) mod blk"
  have blk: "8 \<le> blk" "blk \<le> 252" using assms by (auto simp: blk_def wire_block_def)
  have m: "m < blk" using blk by (simp add: m_def)
  have p: "wire_pad_len c n = (if blk - m < 4 then blk - m + blk else blk - m)"
    by (simp add: wire_pad_len_def Let_def blk_def m_def)
  show "4 \<le> wire_pad_len c n" using m blk unfolding p by auto
  show "wire_pad_len c n \<le> 255" using m blk unfolding p by auto
  have "n + 5 = blk * ((n + 5) div blk) + m" by (simp add: m_def)
  then have e: "5 + n + (blk - m) = blk * ((n + 5) div blk + 1)"
    using m by simp
  have z1: "(5 + n + (blk - m)) mod blk = 0" by (simp only: e mod_mult_self1_is_0)
  have z2: "(5 + n + (blk - m + blk)) mod blk = (5 + n + (blk - m)) mod blk"
    by (metis add.assoc mod_add_self2)
  show "(5 + n + wire_pad_len c n) mod wire_block c = 0"
  proof (cases "blk - m < 4")
    case True
    then have "wire_pad_len c n = blk - m + blk" by (simp add: p)
    then show ?thesis using z1 z2 by (simp only: blk_def)
  next
    case False
    then have "wire_pad_len c n = blk - m" by (simp add: p)
    then show ?thesis using z1 by (simp only: blk_def)
  qed
qed

lemma unat_of_nat_u8: "n < 256 \<Longrightarrow> unat (of_nat n :: u8) = n"
  by (simp add: unat_of_nat)

lemma unat_of_nat_u32: "n < 2 ^ 32 \<Longrightarrow> unat (of_nat n :: u32) = n"
  by (simp add: unat_of_nat)

lemma unat_pad_len:
  assumes "c \<le> 252" and "n + 5 < 2 ^ 32"
  shows "unat (calc_pad_len (of_nat (5 + n)) (of_nat c)) = wire_pad_len c n"
proof -
  have c: "unat (of_nat c :: u8) = c" using assms by (simp add: unat_of_nat_u8)
  have n: "unat (of_nat (5 + n) :: u32) = n + 5"
    using assms unat_of_nat_u32 [of "5 + n"] by (simp add: add.commute)
  show ?thesis
    using assms unat_calc_pad_len [of "of_nat c" "of_nat (5 + n)"]
    by (simp only: c n wire_pad_len_def wire_block_def)
qed

lemma pad_stage_pack:
  assumes c: "cipher_block_len s \<le> 252" and n: "length payload + 260 < 2 ^ 32"
  shows "\<exists>junk. pack (finish_packet_pad X (build_packet s payload)) =
           \<lparr>data = plain_packet X s payload @ junk, len = length (plain_packet X s payload)\<rparr>"
proof -
  define pad where "pad = calc_pad_len (of_nat (5 + length payload)) (of_nat (cipher_block_len (build_packet s payload)))"
  define fill where "fill = (if cipher_type (build_packet s payload) = SSH_CIPHER_NONE then replicate (unat pad) 0xff
                  else crypto_random_gen X (unat pad))"
  obtain junk where j: "pack (build_packet s payload) =
     \<lparr>data = [0, 0, 0, 0, 0] @ payload @ junk, len = 5 + length payload\<rparr>"
    using build_packet_pack by blast
  have up: "unat pad = wire_pad_len (cipher_block_len s) (length payload)"
    unfolding pad_def build_packet_fields using c n by (intro unat_pad_len) simp_all
  have f: "fill = wire_padding X (cipher_type s) (wire_pad_len (cipher_block_len s) (length payload))"
    by (simp add: fill_def wire_padding_def up build_packet_fields)
  have lf: "length fill = unat pad" by (simp add: fill_def)
  have pw: "pad = of_nat (length fill)" by (simp add: lf)
  have lenf: "(of_nat (5 + length payload + unat pad) - 4 :: u32) = of_nat (1 + length payload + length fill)"
    by (simp add: lf)
  have "pack (finish_packet_pad X (build_packet s payload)) =
     \<lparr>data = u32_be (of_nat (5 + length payload + unat pad) - 4) @ [pad] @ payload @ fill
               @ drop (unat pad) junk,
      len = 5 + length payload + unat pad\<rparr>"
    by (rule finish_packet_pad_pack [OF j _ pad_def fill_def]) simp
  also have "\<dots> = \<lparr>data = plain_packet X s payload @ drop (unat pad) junk,
      len = length (plain_packet X s payload)\<rparr>"
    unfolding lenf plain_packet_def wire_packet_def f[symmetric] using lf pw by simp
  finally show ?thesis by blast
qed

lemma length_plain_packet:
  "length (plain_packet X s payload) = 5 + length payload + wire_pad_len (cipher_block_len s) (length payload)"
  by (simp add: plain_packet_def wire_packet_def wire_padding_def)

section \<open>Sending\<close>


lemma finish_packet_pad_frame: "finish_packet_pad X s = s\<lparr>pack := pack (finish_packet_pad X s)\<rparr>"
  by (simp add: finish_packet_pad_def Let_def split_def)

lemma finish_packet_pad_fields:
  "seq_num (finish_packet_pad X s) = seq_num s"
  "cipher_type (finish_packet_pad X s) = cipher_type s"
  "cipher_block_len (finish_packet_pad X s) = cipher_block_len s"
  "cipher_ctx (finish_packet_pad X s) = cipher_ctx s"
  "mac_type (finish_packet_pad X s) = mac_type s"
  "mac_len (finish_packet_pad X s) = mac_len s"
  "mac_ctx (finish_packet_pad X s) = mac_ctx s"
  "pack_enc (finish_packet_pad X s) = pack_enc s"
  "net_buffer (finish_packet_pad X s) = net_buffer s"
  by (simp_all add: finish_packet_pad_def Let_def split_def)

lemma send_after_pad_status:
  assumes pk: "pack (finish_packet_pad X s) = \<lparr>data = P @ junk, len = length P\<rparr>"
  shows "fst (ssh_stream_send_packet X s sock) =
     (if cipher_type s \<noteq> SSH_CIPHER_NONE \<and> ssh_cipher_crypt X (cipher_ctx s) P = None
      then Inl CipherError
      else if mac_type s \<noteq> SSH_MAC_NONE \<and> ssh_mac_compute X (mac_ctx s) (seq_num s) P = None
      then Inl MacError
      else if \<not> tx_open sock then Inl IoError else Inr ())"
  by (auto simp: ssh_stream_send_packet_def finish_packet_def finish_packet_encrypt_def
      finish_packet_mac_def Let_def split_def pk finish_packet_pad_fields
      ssh_buf_get_write_pointer_def ssh_buf_clear_def buf_fill_def ssh_buf_grow_def
      ssh_net_write_all_def
      split: option.splits prod.splits sum.splits)

lemma send_after_pad_seq_num:
  assumes pk: "pack (finish_packet_pad X s) = \<lparr>data = P @ junk, len = length P\<rparr>"
  shows "seq_num (fst (snd (ssh_stream_send_packet X s sock))) =
     (if fst (finish_packet X s) = Inr () then seq_num s + 1 else seq_num s)"
  by (auto simp: ssh_stream_send_packet_def finish_packet_def finish_packet_encrypt_def
      finish_packet_mac_def Let_def split_def pk finish_packet_pad_fields
      ssh_buf_get_write_pointer_def ssh_buf_clear_def buf_fill_def ssh_buf_grow_def
      ssh_net_write_all_def
      split: option.splits prod.splits sum.splits)

lemma send_after_pad_octets:
  assumes pk: "pack (finish_packet_pad X s) = \<lparr>data = P @ junk, len = length P\<rparr>"
    and ok: "fst (ssh_stream_send_packet X s sock) = Inr ()"
    and cl: "cipher_keeps_length X" and dl: "digest_length X (mac_len s)"
    and m0: "mac_type s = SSH_MAC_NONE \<longrightarrow> mac_len s = 0"
  shows "tx (snd (snd (ssh_stream_send_packet X s sock))) = tx sock @ wire_body X s P @ wire_mac X s P"
  using ok cl dl m0
  apply (simp add: ssh_stream_send_packet_def finish_packet_def finish_packet_encrypt_def
      finish_packet_mac_def Let_def split_def pk finish_packet_pad_fields
      ssh_buf_get_write_pointer_def ssh_buf_clear_def buf_fill_def ssh_buf_grow_def
      ssh_net_write_all_def wire_body_def wire_mac_def mem_store_def
      cipher_keeps_length_def digest_length_def ssh_cipher_crypt_def ssh_mac_compute_def
      split: option.splits prod.splits sum.splits if_splits)
  done

lemma finish_packet_pack:
  assumes pk: "pack (finish_packet_pad X s) = \<lparr>data = P @ junk, len = length P\<rparr>"
  shows "\<exists>junk'. pack (snd (finish_packet X s)) = \<lparr>data = P @ junk', len = length P\<rparr>"
  by (auto simp: finish_packet_def finish_packet_encrypt_def
      finish_packet_mac_def Let_def split_def pk finish_packet_pad_fields
      ssh_buf_get_write_pointer_def ssh_buf_clear_def buf_fill_def ssh_buf_grow_def mem_store_def
      split: option.splits)

lemma finish_packet_seq_num: "seq_num (snd (finish_packet X s)) = seq_num s"
  by (auto simp: finish_packet_def finish_packet_encrypt_def
      finish_packet_mac_def Let_def split_def finish_packet_pad_fields
      split: option.splits)

lemma plain_packet_header:
  "plain_packet X s payload =
     u32_be (of_nat (1 + length payload + wire_pad_len (cipher_block_len s) (length payload)))
       @ of_nat (wire_pad_len (cipher_block_len s) (length payload)) # payload
       @ wire_padding X (cipher_type s) (wire_pad_len (cipher_block_len s) (length payload))"
  by (simp add: plain_packet_def wire_packet_def wire_padding_def)

lemma padding_arithmetic_aux:
  assumes c: "cipher_block_len s \<le> 252" and n: "length payload + 260 < 2 ^ 32"
    and f: "s' = snd (finish_packet X (build_packet s payload))"
    and b: "block = max (cipher_block_len s) 8"
    and pl: "pad_len = unat (data (pack s') ! 4)"
    and pk: "packet_length = unat (ssh_buf_get_u32 (data (pack s')))"
  shows "pad_len = (let r = block - (length payload + 5) mod block
                    in if r < 4 then r + block else r)
       \<and> 4 \<le> pad_len \<and> pad_len \<le> 255
       \<and> packet_length = 1 + length payload + pad_len
       \<and> (packet_length + 4) mod block = 0"
proof -
  define w where "w = wire_pad_len (cipher_block_len s) (length payload)"
  have w: "4 \<le> w" "w \<le> 255" "(5 + length payload + w) mod wire_block (cipher_block_len s) = 0"
    using wire_pad_len_bounds [OF c] by (simp_all add: w_def)
  obtain j0 where "pack (finish_packet_pad X (build_packet s payload)) =
           \<lparr>data = plain_packet X s payload @ j0, len = length (plain_packet X s payload)\<rparr>"
    using pad_stage_pack [OF c n] by blast
  then obtain junk where j: "pack s' = \<lparr>data = plain_packet X s payload @ junk,
       len = length (plain_packet X s payload)\<rparr>"
    using finish_packet_pack f by blast
  have d: "data (pack s') = u32_be (of_nat (1 + length payload + w)) @ of_nat w # payload
       @ wire_padding X (cipher_type s) w @ junk"
    by (simp add: j plain_packet_header w_def)
  have p1: "pad_len = w" using w by (simp add: pl d nth_append unat_of_nat_u8)
  have p2: "packet_length = 1 + length payload + w"
    unfolding pk d ssh_buf_get_u32_be using n w by (intro unat_of_nat_u32) simp
  have p3: "w = (let r = block - (length payload + 5) mod block
                    in if r < 4 then r + block else r)"
    by (simp add: w_def wire_pad_len_def wire_block_def b Let_def)
  have p4: "(packet_length + 4) mod block = 0"
  proof -
    have "packet_length + 4 = 5 + length payload + w" by (simp add: p2)
    then show ?thesis using w(3) by (simp only: b wire_block_def)
  qed
  show ?thesis using p1 p2 p3 p4 w by simp
qed


lemma ssh_mac_compute_Some:
  "ssh_mac_compute X ctx seq packet = Some digest \<longleftrightarrow>
     (\<exists>k. ctx = Some k \<and> mac_digest X k (u32_be seq @ packet) = Some digest)"
  by (simp add: ssh_mac_compute_def split: option.splits)

lemma finish_packet_status_frame:
  "(fst (ssh_stream_send_packet X s sock) = Inr ()) = (fst (finish_packet X s) = Inr () \<and> tx_open sock)"
  by (auto simp: ssh_stream_send_packet_def ssh_net_write_all_def Let_def
      split: prod.splits sum.splits)

text \<open>The definitions that evaluate a concrete send or receive.\<close>

lemma upt_numeral_right: "[i..<numeral k] = (if i < numeral k then i # [Suc i..<numeral k] else [])"
  by (rule upt_rec)

lemma replicate_numeral: "replicate (numeral k) x = x # replicate (pred_numeral k) x"
  by (simp add: numeral_eq_Suc)

lemmas eval_defs = ssh_stream_send_packet_def build_packet_def ssh_stream_init_def finish_packet_def
  finish_packet_pad_def finish_packet_encrypt_def finish_packet_mac_def ssh_stream_new_packet_def
  ssh_buf_write_u8_def ssh_buf_write_u32_def ssh_buf_append_def ssh_buf_get_write_pointer_def
  buf_fill_def ssh_buf_clear_def ssh_buf_new_def mem_store_def u32_be_def ssh_buf_set_u32_def
  calc_pad_len_def ssh_net_write_all_def Let_def ssh_buf_grow_def
  ssh_stream_recv_packet_def recv_first_block_def recv_rest_def verify_read_packet_def
  stream_recv_data_def read_pack_def set_read_pack_def ssh_net_read_all_def ssh_buf_get_u32_def
  ssh_buf_remove_data_def recv_payload_def
  toy_extern_def toy_crypt_def toy_digest_def fresh_stream_def keyed_stream_def hello_def
  open_sock_def closed_sock_def sock_with_def ssh_cipher_crypt_def ssh_mac_compute_def
  crypto_random_gen_def replicate_numeral upt_numeral_right
  tampered_wire_def hello_wire_def oversize_wire_def keyed_wire_def
  mac_first_wrong_def mac_last_wrong_def


lemma toy_keeps_length: "cipher_keeps_length toy_extern"
  by (auto simp: cipher_keeps_length_def toy_extern_def toy_crypt_def)

lemma toy_digest_length: "digest_length toy_extern 2"
  by (auto simp: digest_length_def toy_extern_def toy_digest_def)

lemma keyed_send_ok:
  "fst (ssh_stream_send_packet toy_extern (build_packet keyed_stream hello) open_sock) = Inr ()"
  by (simp add: eval_defs)

section \<open>Claims about sending\<close>

text \<open>
  C2. Padding arithmetic: in every packet \<^verbatim>\<open>finish_packet\<close> frames around a payload, the
  padding length octet is \<open>block - ((payload_len + 5) mod block)\<close> with \<open>block =
  max(cipher_block_len, 8)\<close>, increased by \<open>block\<close> when that is below 4; it lies in
  4..255; the packet length field holds 1 + payload length + padding length; and the
  packet length plus 4 is a multiple of \<open>block\<close>. The cipher block length is at most
  252 (at 253 to 255 the addition of \<^verbatim>\<open>calc_pad_len\<close> wraps in its \<^verbatim>\<open>uint8_t\<close>), and the
  packet fits the 32-bit length field.
\<close>

theorem padding_arithmetic:
  assumes "cipher_block_len s \<le> 252" and "length payload + 260 < 2 ^ 32"
  shows "let s' = snd (finish_packet X (build_packet s payload));
             block = max (cipher_block_len s) 8;
             pad_len = unat (data (pack s') ! 4);
             packet_length = unat (ssh_buf_get_u32 (data (pack s')))
         in pad_len = (let r = block - (length payload + 5) mod block
                       in if r < 4 then r + block else r)
          \<and> 4 \<le> pad_len \<and> pad_len \<le> 255
          \<and> packet_length = 1 + length payload + pad_len
          \<and> (packet_length + 4) mod block = 0"
  unfolding Let_def
  using padding_arithmetic_aux [OF assms refl refl refl refl, of X, unfolded Let_def] .

text \<open>The theorem at the keyed stream (block length 8) and the six-octet payload.\<close>

theorem padding_arithmetic_witness:
  "cipher_block_len keyed_stream \<le> 252 \<and> length hello + 260 < (2::nat) ^ 32
   \<and> (let s' = snd (finish_packet toy_extern (build_packet keyed_stream hello));
           block = max (cipher_block_len keyed_stream) 8;
           pad_len = unat (data (pack s') ! 4);
           packet_length = unat (ssh_buf_get_u32 (data (pack s')))
       in pad_len = (let r = block - (length hello + 5) mod block
                     in if r < 4 then r + block else r)
        \<and> 4 \<le> pad_len \<and> pad_len \<le> 255
        \<and> packet_length = 1 + length hello + pad_len
        \<and> (packet_length + 4) mod block = 0)"
proof -
  have h1: "cipher_block_len keyed_stream \<le> 252"
    by (simp add: keyed_stream_def ssh_stream_init_def)
  have h2: "length hello + 260 < (2::nat) ^ 32" by (simp add: hello_def)
  show ?thesis using h1 h2 padding_arithmetic [OF h1 h2, of toy_extern] by blast
qed

text \<open>
  C3. MAC construction: when a packet is sent by a stream with a MAC installed, the MAC
  is the digest of the four big-endian octets of \<^verbatim>\<open>seq_num\<close> followed by the unencrypted
  framed packet (length field, padding length, payload, padding); what is written to
  the socket is the cleartext packet (no cipher) or the output of the cipher on the
  packet alone, followed by the digest as computed; and the packet length field is 1 +
  payload length + padding length, whatever the MAC length.
\<close>

theorem mac_construction:
  assumes c: "cipher_block_len s \<le> 252" and n: "length payload + 260 < 2 ^ 32"
    and m: "mac_type s \<noteq> SSH_MAC_NONE"
    and cl: "cipher_keeps_length X" and dl: "digest_length X (mac_len s)"
    and sent: "ssh_stream_send_packet X (build_packet s payload) sock = (Inr (), s', sock')"
  shows "\<exists>k digest. mac_ctx s = Some k
           \<and> mac_digest X k (u32_be (seq_num s) @ plain_packet X s payload) = Some digest
           \<and> length digest = mac_len s
           \<and> (if cipher_type s = SSH_CIPHER_NONE
                then tx sock' = tx sock @ plain_packet X s payload @ digest
                else \<exists>ctx' enc. ssh_cipher_crypt X (cipher_ctx s) (plain_packet X s payload)
                                    = Some (ctx', enc)
                       \<and> tx sock' = tx sock @ enc @ digest)
           \<and> take 4 (plain_packet X s payload)
               = u32_be (of_nat (1 + length payload
                                  + wire_pad_len (cipher_block_len s) (length payload)))"
proof -
  let ?s0 = "build_packet s payload"
  let ?P = "plain_packet X s payload"
  obtain junk where pk: "pack (finish_packet_pad X ?s0) = \<lparr>data = ?P @ junk, len = length ?P\<rparr>"
    using pad_stage_pack [OF c n] by blast
  have ok: "fst (ssh_stream_send_packet X ?s0 sock) = Inr ()" by (simp add: sent)
  have st: "\<not> (cipher_type s \<noteq> SSH_CIPHER_NONE \<and> ssh_cipher_crypt X (cipher_ctx s) ?P = None)"
     "ssh_mac_compute X (mac_ctx s) (seq_num s) ?P \<noteq> None"
    using ok m send_after_pad_status [OF pk, of sock]
    by (auto simp: build_packet_fields split: if_splits)
  then obtain digest where dg: "ssh_mac_compute X (mac_ctx s) (seq_num s) ?P = Some digest"
    by blast
  then obtain k where k: "mac_ctx s = Some k" "mac_digest X k (u32_be (seq_num s) @ ?P) = Some digest"
    by (auto simp: ssh_mac_compute_Some)
  have ld: "length digest = mac_len s" using dl k(2) by (auto simp: digest_length_def)
  have "tx (snd (snd (ssh_stream_send_packet X ?s0 sock)))
          = tx sock @ wire_body X ?s0 ?P @ wire_mac X ?s0 ?P"
    using m by (intro send_after_pad_octets [OF pk ok cl]) (simp_all add: build_packet_fields dl)
  then have w: "tx sock' = tx sock @ wire_body X ?s0 ?P @ digest"
    using m dg ld by (simp add: sent wire_mac_def build_packet_fields)
  have body: "if cipher_type s = SSH_CIPHER_NONE
                then tx sock' = tx sock @ ?P @ digest
                else \<exists>ctx' enc. ssh_cipher_crypt X (cipher_ctx s) ?P = Some (ctx', enc)
                       \<and> tx sock' = tx sock @ enc @ digest"
    using w st(1) by (auto simp: wire_body_def build_packet_fields split: option.splits)
  have hd: "take 4 ?P = u32_be (of_nat (1 + length payload
                                  + wire_pad_len (cipher_block_len s) (length payload)))"
    by (simp add: plain_packet_header)
  show ?thesis using k ld body hd by blast
qed

text \<open>The theorem at the keyed stream, which has the toy cipher and MAC installed.\<close>

theorem mac_construction_witness:
  "cipher_block_len keyed_stream \<le> 252 \<and> length hello + 260 < (2::nat) ^ 32
   \<and> mac_type keyed_stream \<noteq> SSH_MAC_NONE
   \<and> cipher_keeps_length toy_extern \<and> digest_length toy_extern (mac_len keyed_stream)
   \<and> fst (ssh_stream_send_packet toy_extern (build_packet keyed_stream hello) open_sock) = Inr ()
   \<and> (\<exists>k digest. mac_ctx keyed_stream = Some k
           \<and> mac_digest toy_extern k (u32_be (seq_num keyed_stream)
                 @ plain_packet toy_extern keyed_stream hello) = Some digest
           \<and> length digest = mac_len keyed_stream
           \<and> (if cipher_type keyed_stream = SSH_CIPHER_NONE
                then tx (snd (snd (ssh_stream_send_packet toy_extern
                                     (build_packet keyed_stream hello) open_sock)))
                       = tx open_sock @ plain_packet toy_extern keyed_stream hello @ digest
                else \<exists>ctx' enc. ssh_cipher_crypt toy_extern (cipher_ctx keyed_stream)
                                     (plain_packet toy_extern keyed_stream hello)
                                    = Some (ctx', enc)
                       \<and> tx (snd (snd (ssh_stream_send_packet toy_extern
                                     (build_packet keyed_stream hello) open_sock)))
                           = tx open_sock @ enc @ digest)
           \<and> take 4 (plain_packet toy_extern keyed_stream hello)
               = u32_be (of_nat (1 + length hello
                                  + wire_pad_len (cipher_block_len keyed_stream) (length hello))))"
proof -
  let ?r = "ssh_stream_send_packet toy_extern (build_packet keyed_stream hello) open_sock"
  have h1: "cipher_block_len keyed_stream \<le> 252"
    by (simp add: keyed_stream_def ssh_stream_init_def)
  have h2: "length hello + 260 < (2::nat) ^ 32" by (simp add: hello_def)
  have h3: "mac_type keyed_stream \<noteq> SSH_MAC_NONE"
    by (simp add: keyed_stream_def ssh_stream_init_def)
  have h4: "cipher_keeps_length toy_extern" by (rule toy_keeps_length)
  have h5: "digest_length toy_extern (mac_len keyed_stream)"
    using toy_digest_length by (simp add: keyed_stream_def ssh_stream_init_def)
  have h6: "fst ?r = Inr ()" by (rule keyed_send_ok)
  then have h7: "?r = (Inr (), fst (snd ?r), snd (snd ?r))"
    by (metis prod.collapse)
  show ?thesis
    using h1 h2 h3 h4 h5 h6 mac_construction [OF h1 h2 h3 h4 h5 h7] by blast
qed

text \<open>
  C4, as the code has it. \<^verbatim>\<open>ssh_stream_send_packet\<close> increments \<^verbatim>\<open>seq_num\<close> as soon as
  \<^verbatim>\<open>finish_packet\<close> has succeeded, before the socket write: \<^verbatim>\<open>seq_num\<close> is unchanged when
  \<^verbatim>\<open>finish_packet\<close> fails and one more when it succeeds, whether or not the write
  then succeeds; the send succeeds exactly when \<^verbatim>\<open>finish_packet\<close> and the write both do.
\<close>

theorem send_seq_num_timing:
  "seq_num (fst (snd (ssh_stream_send_packet X s sock)))
     = (if fst (finish_packet X s) = Inr () then seq_num s + 1 else seq_num s)
   \<and> (fst (ssh_stream_send_packet X s sock) = Inr ())
     = (fst (finish_packet X s) = Inr () \<and> tx_open sock)"
proof -
  have "seq_num (snd (finish_packet X s)) = seq_num s" by (rule finish_packet_seq_num)
  then have "seq_num (fst (snd (ssh_stream_send_packet X s sock)))
     = (if fst (finish_packet X s) = Inr () then seq_num s + 1 else seq_num s)"
    by (auto simp: ssh_stream_send_packet_def ssh_net_write_all_def Let_def
        split: prod.splits sum.splits)
  then show ?thesis using finish_packet_status_frame by blast
qed

text \<open>
  C4 as stated (\<^verbatim>\<open>seq_num\<close> is left unchanged when the socket write fails) does not hold:
  on a fresh stream whose socket refuses the write, the send fails with an I/O error
  and \<^verbatim>\<open>seq_num\<close> has gone from 0 to 1.
\<close>

theorem send_seq_num_counterexample:
  "fst (ssh_stream_send_packet toy_extern (build_packet fresh_stream hello) closed_sock) = Inl IoError
   \<and> seq_num (build_packet fresh_stream hello) = 0
   \<and> seq_num (fst (snd (ssh_stream_send_packet toy_extern (build_packet fresh_stream hello)
                            closed_sock))) = 1"
  by (simp add: eval_defs)


text \<open>
  C8, as the code has it. With no cipher and no MAC, sending the payload 05 'h' 'e' 'l'
  'l' 'o' writes exactly 00 00 00 0C 05 05 68 65 6C 6C 6F FF FF FF FF FF: the packet
  length is 12, the padding length 5 (11 octets before the padding, block length 8),
  the padding five octets 0xFF; receiving these octets succeeds and gives back the
  payload.
\<close>

theorem null_cipher_wire_example:
  "tx (snd (snd (ssh_stream_send_packet X (build_packet ssh_stream_init hello) open_sock)))
     = [0x00, 0x00, 0x00, 0x0c, 0x05, 0x05, 0x68, 0x65, 0x6c, 0x6c, 0x6f,
        0xff, 0xff, 0xff, 0xff, 0xff]
   \<and> fst (ssh_stream_recv_packet X ssh_stream_init
            (sock_with [0x00, 0x00, 0x00, 0x0c, 0x05, 0x05, 0x68, 0x65, 0x6c, 0x6c, 0x6f,
                        0xff, 0xff, 0xff, 0xff, 0xff])) = Inr ()
   \<and> recv_payload (fst (snd (ssh_stream_recv_packet X ssh_stream_init
            (sock_with [0x00, 0x00, 0x00, 0x0c, 0x05, 0x05, 0x68, 0x65, 0x6c, 0x6c, 0x6f,
                        0xff, 0xff, 0xff, 0xff, 0xff])))) = hello"
  by (simp add: eval_defs)

text \<open>
  C8 as stated does not hold: the octets sent are not 00 00 00 0C 06 05 68 65 6C 6C 6F
  followed by six FF (a padding length of 6 would make the packet length 13), and a
  stream that receives those seventeen octets takes 'o' for padding: its payload is
  05 'h' 'e' 'l' 'l'.
\<close>

theorem null_cipher_wire_counterexample:
  "tx (snd (snd (ssh_stream_send_packet toy_extern (build_packet fresh_stream hello) open_sock)))
     \<noteq> [0x00, 0x00, 0x00, 0x0c, 0x06, 0x05, 0x68, 0x65, 0x6c, 0x6c, 0x6f,
         0xff, 0xff, 0xff, 0xff, 0xff, 0xff]
   \<and> recv_payload (fst (snd (ssh_stream_recv_packet toy_extern fresh_stream
            (sock_with [0x00, 0x00, 0x00, 0x0c, 0x06, 0x05, 0x68, 0x65, 0x6c, 0x6c, 0x6f,
                        0xff, 0xff, 0xff, 0xff, 0xff, 0xff])))) = [0x05, 0x68, 0x65, 0x6c, 0x6c]
   \<and> recv_payload (fst (snd (ssh_stream_recv_packet toy_extern fresh_stream
            (sock_with [0x00, 0x00, 0x00, 0x0c, 0x06, 0x05, 0x68, 0x65, 0x6c, 0x6c, 0x6f,
                        0xff, 0xff, 0xff, 0xff, 0xff, 0xff])))) \<noteq> hello"
  by (simp add: eval_defs)

section \<open>Receiving\<close>


lemma stream_recv_data_fields:
  "seq_num (fst (snd (stream_recv_data s sock n))) = seq_num s"
  "cipher_type (fst (snd (stream_recv_data s sock n))) = cipher_type s"
  "cipher_block_len (fst (snd (stream_recv_data s sock n))) = cipher_block_len s"
  "cipher_ctx (fst (snd (stream_recv_data s sock n))) = cipher_ctx s"
  "mac_type (fst (snd (stream_recv_data s sock n))) = mac_type s"
  "mac_len (fst (snd (stream_recv_data s sock n))) = mac_len s"
  "mac_ctx (fst (snd (stream_recv_data s sock n))) = mac_ctx s"
  "pack (fst (snd (stream_recv_data s sock n))) = pack s"
  "pack_enc (fst (snd (stream_recv_data s sock n))) = pack_enc s"
  by (simp_all add: stream_recv_data_def Let_def split: option.splits sum.splits prod.splits)

lemma set_read_pack_fields:
  "seq_num (set_read_pack s b) = seq_num s"
  "cipher_type (set_read_pack s b) = cipher_type s"
  "cipher_block_len (set_read_pack s b) = cipher_block_len s"
  "cipher_ctx (set_read_pack s b) = cipher_ctx s"
  "mac_type (set_read_pack s b) = mac_type s"
  "mac_len (set_read_pack s b) = mac_len s"
  "mac_ctx (set_read_pack s b) = mac_ctx s"
  "net_buffer (set_read_pack s b) = net_buffer s"
  by (simp_all add: set_read_pack_def)

lemma recv_first_block_fields:
  "seq_num (fst (snd (recv_first_block X s sock n))) = seq_num s"
  "cipher_type (fst (snd (recv_first_block X s sock n))) = cipher_type s"
  "cipher_block_len (fst (snd (recv_first_block X s sock n))) = cipher_block_len s"
  "mac_type (fst (snd (recv_first_block X s sock n))) = mac_type s"
  "mac_len (fst (snd (recv_first_block X s sock n))) = mac_len s"
  "mac_ctx (fst (snd (recv_first_block X s sock n))) = mac_ctx s"
  by (simp_all add: recv_first_block_def Let_def split_def set_read_pack_fields
      stream_recv_data_fields
      split: option.splits sum.splits)

lemma recv_rest_fields:
  "seq_num (fst (snd (recv_rest X s sock n p))) = seq_num s"
  "cipher_type (fst (snd (recv_rest X s sock n p))) = cipher_type s"
  "cipher_block_len (fst (snd (recv_rest X s sock n p))) = cipher_block_len s"
  "mac_type (fst (snd (recv_rest X s sock n p))) = mac_type s"
  "mac_len (fst (snd (recv_rest X s sock n p))) = mac_len s"
  "mac_ctx (fst (snd (recv_rest X s sock n p))) = mac_ctx s"
  by (simp_all add: recv_rest_def Let_def split_def set_read_pack_fields
      stream_recv_data_fields
      split: option.splits sum.splits)

lemma recv_packet_seq_num:
  "seq_num (fst (snd (ssh_stream_recv_packet X s sock)))
     = (if fst (ssh_stream_recv_packet X s sock) = Inr () then seq_num s + 1 else seq_num s)"
  by (simp add: ssh_stream_recv_packet_def Let_def split_def recv_first_block_fields
      recv_rest_fields split: sum.splits)

lemma keyed_wire_sent:
  "tx (snd (snd (ssh_stream_send_packet toy_extern (build_packet keyed_stream hello) open_sock)))
     = keyed_wire"
  by (simp add: eval_defs)

lemma tampered_recv:
  "fst (ssh_stream_recv_packet toy_extern keyed_stream (sock_with tampered_wire)) = Inl MacMismatch"
  by (simp add: eval_defs tampered_wire_def)

text \<open>
  Nothing compares the length field with the first block before the rest is read. A
  first block of the keyed stream (block length 8, MAC length 2) that announces a
  length of 2 makes \<^verbatim>\<open>remainder_len\<close> 0 and the length given to the cipher 0 - 2, which
  is 4294967294 in 32 bits. A first block of a fresh stream that announces a length of
  1 makes \<^verbatim>\<open>remainder_len\<close> 1 - 8 + 4, which is 4294967293 in 32 bits, and that many
  octets are asked of the socket.
\<close>

lemma recv_short_length_keyed:
  "fst (ssh_stream_recv_packet toy_extern keyed_stream
          (sock_with [0x5a, 0x5a, 0x5a, 0x58, 0x5e, 0x5a, 0x5a, 0x5a])) = Inl UndefinedBehaviour"
  by (simp add: eval_defs)

lemma recv_short_length_fresh:
  "unat (1 + of_nat (mac_len fresh_stream) - 8 + 4 :: u32) = 4294967293"
  "fst (ssh_stream_recv_packet toy_extern fresh_stream
          (sock_with [0x00, 0x00, 0x00, 0x01, 0x04, 0x00, 0x00, 0x00])) = Inl IoError"
  by (simp_all add: eval_defs)

lemma stream_recv_data_errors:
  "fst (stream_recv_data s sock n) \<noteq> Inl (InvalidLength, bs)"
  by (simp add: stream_recv_data_def ssh_net_read_all_def Let_def
      split: option.splits sum.splits prod.splits)

lemma recv_rest_errors: "fst (recv_rest X s sock n p) \<noteq> Inl InvalidLength"
  using stream_recv_data_errors
  by (auto simp add: recv_rest_def Let_def split_def split: option.splits sum.splits)

lemma verify_read_packet_errors: "verify_read_packet X s \<noteq> Inl InvalidLength"
  by (simp add: verify_read_packet_def Let_def split: option.splits)

lemma verify_read_packet_aligned:
  "verify_read_packet X s = Inr () \<Longrightarrow>
     len (pack s) mod unat (if cipher_block_len s \<noteq> 0 then of_nat (cipher_block_len s) else 8 :: u8) = 0"
  by (simp add: verify_read_packet_def Let_def split: option.splits if_splits)

lemma recv_rest_len:
  "fst (recv_rest X s sock n p) = Inr () \<Longrightarrow>
     len (pack (fst (snd (recv_rest X s sock n p)))) = unat (p + 4)"
  by (auto simp add: recv_rest_def Let_def split_def set_read_pack_def read_pack_def
      stream_recv_data_fields
      split: option.splits sum.splits if_splits)


lemma recv_length_check_aux:
  assumes fb: "recv_first_block X s sock
                 (if cipher_block_len s = 0 then 8 else of_nat (cipher_block_len s)) = (Inr (), s1, sock1)"
    and pl: "pack_len = ssh_buf_get_u32 (data (pack s1))"
  shows "(fst (ssh_stream_recv_packet X s sock) = Inl InvalidLength) = (pack_len = 0 \<or> 65536 < pack_len)"
    and "pack_len = 0 \<or> 65536 < pack_len \<Longrightarrow>
           ssh_stream_recv_packet X s sock = (Inl InvalidLength, s1, sock1)"
    and "cipher_block_len s = 0 \<or> 8 \<le> cipher_block_len s \<and> cipher_block_len s \<le> 255 \<Longrightarrow>
           fst (ssh_stream_recv_packet X s sock) = Inr () \<Longrightarrow>
           (unat pack_len + 4) mod max (cipher_block_len s) 8 = 0"
proof -
  let ?fbl = "if cipher_block_len s = 0 then 8 else of_nat (cipher_block_len s) :: u32"
  let ?rest = "recv_rest X s1 sock1 ?fbl pack_len"
  have s1: "s1 = fst (snd (recv_first_block X s sock ?fbl))" by (simp add: fb)
  have cbl1: "cipher_block_len s1 = cipher_block_len s"
    unfolding s1 by (rule recv_first_block_fields)
  show bad: "pack_len = 0 \<or> 65536 < pack_len \<Longrightarrow>
           ssh_stream_recv_packet X s sock = (Inl InvalidLength, s1, sock1)"
    by (simp add: ssh_stream_recv_packet_def Let_def fb pl[symmetric])
  have good: "ssh_stream_recv_packet X s sock =
      (case ?rest of
         (Inl e, s2, sock2) \<Rightarrow> (Inl e, s2, sock2)
       | (Inr u, s2, sock2) \<Rightarrow>
           (case verify_read_packet X s2 of
              Inl e \<Rightarrow> (Inl e, s2, sock2)
            | Inr u \<Rightarrow> (Inr (), s2\<lparr>seq_num := seq_num s2 + 1\<rparr>, sock2)))"
    if "\<not> (pack_len = 0 \<or> 65536 < pack_len)"
    using that by (simp add: ssh_stream_recv_packet_def Let_def fb pl[symmetric])
  show "(fst (ssh_stream_recv_packet X s sock) = Inl InvalidLength) = (pack_len = 0 \<or> 65536 < pack_len)"
  proof (cases "pack_len = 0 \<or> 65536 < pack_len")
    case True
    then show ?thesis using bad by simp
  next
    case False
    have "fst (ssh_stream_recv_packet X s sock) \<noteq> Inl InvalidLength"
      using recv_rest_errors [of X s1 sock1 ?fbl pack_len] verify_read_packet_errors
      unfolding good [OF False]
      by (auto split: prod.splits sum.splits)
    then show ?thesis using False by simp
  qed
  show "(unat pack_len + 4) mod max (cipher_block_len s) 8 = 0"
    if blk: "cipher_block_len s = 0 \<or> 8 \<le> cipher_block_len s \<and> cipher_block_len s \<le> 255"
      and ok: "fst (ssh_stream_recv_packet X s sock) = Inr ()"
  proof -
    have ng: "\<not> (pack_len = 0 \<or> 65536 < pack_len)"
      using ok bad by fastforce
    have r: "fst ?rest = Inr ()"
      using ok unfolding good [OF ng] by (auto split: prod.splits sum.splits)
    let ?s2 = "fst (snd ?rest)"
    have v: "verify_read_packet X ?s2 = Inr ()"
      using ok unfolding good [OF ng] by (auto split: prod.splits sum.splits)
    have l: "len (pack ?s2) = unat (pack_len + 4)" by (rule recv_rest_len [OF r])
    have c: "cipher_block_len ?s2 = cipher_block_len s"
      by (simp add: recv_rest_fields cbl1)
    have le: "pack_len \<le> 65536" using ng by (simp add: not_less)
    then have "unat pack_len \<le> 65536" by (simp add: word_le_nat_alt)
    then have u: "unat (pack_len + 4) = unat pack_len + 4"
      by (simp add: unat_word_ariths)
    have b: "unat (if cipher_block_len s \<noteq> 0 then of_nat (cipher_block_len s) else 8 :: u8)
               = max (cipher_block_len s) 8"
      using blk by (auto simp: unat_of_nat_u8 max_def)
    have "len (pack ?s2) mod unat (if cipher_block_len ?s2 \<noteq> 0
               then of_nat (cipher_block_len ?s2) else 8 :: u8) = 0"
      by (rule verify_read_packet_aligned [OF v])
    then show ?thesis unfolding c l u b .
  qed
qed



lemma stream_recv_data_eq:
  assumes wf: "len (net_buffer s) \<le> length (data (net_buffer s))"
    and n: "n \<le> length (pending s sock)"
  shows "stream_recv_data s sock n =
     (Inr (take n (pending s sock)),
      s\<lparr>net_buffer := (if len (net_buffer s) > 0
                        then \<lparr>data = drop (min (len (net_buffer s)) n) (data (net_buffer s)),
                              len = len (net_buffer s) - min (len (net_buffer s)) n\<rparr>
                        else net_buffer s)\<rparr>,
      sock\<lparr>rx := drop (n - len (net_buffer s)) (rx sock)\<rparr>)"
proof -
  define nb where "nb = net_buffer s"
  have lc: "length (contents nb) = len nb" using wf by (simp add: contents_def nb_def)
  have n': "n \<le> len nb + length (rx sock)" using n lc by (simp add: pending_def nb_def)
  consider (empty) "len nb = 0" | (enough) "0 < len nb" "n \<le> len nb" | (more) "0 < len nb" "len nb < n"
    by linarith
  then show ?thesis
  proof cases
    case empty
    then show ?thesis using n'
      by (cases "n = 0")
         (simp_all add: stream_recv_data_def Let_def pending_def contents_def nb_def[symmetric]
          ssh_net_read_all_def)
  next
    case enough
    then show ?thesis using wf
      by (simp add: stream_recv_data_def Let_def pending_def contents_def nb_def[symmetric]
          ssh_buf_remove_data_def min_def)
  next
    case more
    then show ?thesis using wf n'
      by (simp add: stream_recv_data_def Let_def pending_def contents_def nb_def[symmetric]
          ssh_buf_remove_data_def ssh_net_read_all_def min_def)
  qed
qed

lemma stream_recv_data_ok:
  assumes wf: "len (net_buffer s) \<le> length (data (net_buffer s))"
    and n: "n \<le> length (pending s sock)"
  shows "fst (stream_recv_data s sock n) = Inr (take n (pending s sock))"
    and "pending (fst (snd (stream_recv_data s sock n))) (snd (snd (stream_recv_data s sock n)))
           = drop n (pending s sock)"
    and "len (net_buffer (fst (snd (stream_recv_data s sock n))))
           \<le> length (data (net_buffer (fst (snd (stream_recv_data s sock n)))))"
  using wf
  by (auto simp: stream_recv_data_eq [OF wf n] pending_def contents_def min_def drop_take)



lemma stream_recv_data_after:
  assumes wf: "len (net_buffer s) \<le> length (data (net_buffer s))"
    and n: "n \<le> length (pending s sock)"
  shows "stream_recv_data s sock n =
     (Inr (take n (pending s sock)), s\<lparr>net_buffer := buffer_after (net_buffer s) n\<rparr>,
      sock_after (net_buffer s) sock n)"
  by (simp add: stream_recv_data_eq [OF wf n] buffer_after_def sock_after_def)

lemma pending_after:
  assumes wf: "len nb \<le> length (data nb)" and n: "n \<le> len nb + length (rx sock)"
  shows "contents (buffer_after nb n) @ rx (sock_after nb sock n) = drop n (contents nb @ rx sock)"
    and "len (buffer_after nb n) \<le> length (data (buffer_after nb n))"
  using wf n by (auto simp: buffer_after_def sock_after_def contents_def min_def drop_take)

lemma pending_upd [simp]:
  "pending (s\<lparr>pack := a\<rparr>) sock = pending s sock"
  "pending (s\<lparr>pack_enc := b\<rparr>) sock = pending s sock"
  "pending (s\<lparr>cipher_ctx := c\<rparr>) sock = pending s sock"
  "pending (s\<lparr>seq_num := d\<rparr>) sock = pending s sock"
  by (simp_all add: pending_def)

lemma recv_first_block_plain:
  assumes ct: "cipher_type s = SSH_CIPHER_NONE"
    and wf: "len (net_buffer s) \<le> length (data (net_buffer s))"
    and n: "unat fbl \<le> length (pending s sock)"
  shows "recv_first_block X s sock fbl =
     (Inr (),
      s\<lparr>pack := \<lparr>data = mem_store (data (pack s)) 0 (take (unat fbl) (pending s sock)),
                  len = unat fbl\<rparr>,
        net_buffer := buffer_after (net_buffer s) (unat fbl)\<rparr>,
      sock_after (net_buffer s) sock (unat fbl))"
  using ct wf n
  by (cases "pack s")
     (simp add: recv_first_block_def Let_def read_pack_def set_read_pack_def
      ssh_buf_get_write_pointer_def ssh_buf_clear_def buf_fill_def stream_recv_data_after)

lemma recv_first_block_cipher:
  assumes ct: "cipher_type s \<noteq> SSH_CIPHER_NONE"
    and wf: "len (net_buffer s) \<le> length (data (net_buffer s))"
    and n: "unat fbl \<le> length (pending s sock)"
    and cc: "ssh_cipher_crypt X (cipher_ctx s) (take (unat fbl) (pending s sock)) = Some (c1, dec)"
  shows "recv_first_block X s sock fbl =
     (Inr (),
      s\<lparr>pack := \<lparr>data = mem_store (data (pack s)) 0 dec, len = unat fbl\<rparr>,
        pack_enc := \<lparr>data = mem_store (data (pack_enc s)) 0 (take (unat fbl) (pending s sock)),
                      len = unat fbl\<rparr>,
        net_buffer := buffer_after (net_buffer s) (unat fbl),
        cipher_ctx := Some c1\<rparr>,
      sock_after (net_buffer s) sock (unat fbl))"
  using ct wf n cc
  by (cases "pack s"; cases "pack_enc s")
     (simp add: recv_first_block_def Let_def read_pack_def set_read_pack_def
      ssh_buf_get_write_pointer_def ssh_buf_clear_def buf_fill_def stream_recv_data_after
      mem_store_0)



lemma recv_rest_plain:
  assumes ct: "cipher_type s = SSH_CIPHER_NONE"
    and wf: "len (net_buffer s) \<le> length (data (net_buffer s))"
    and pk: "pack s = \<lparr>data = d, len = l\<rparr>"
    and r: "unat (pack_len + of_nat (mac_len s) - fbl + 4) = r"
    and n: "r \<le> length (pending s sock)"
  shows "recv_rest X s sock fbl pack_len =
     (Inr (),
      s\<lparr>pack := \<lparr>data = mem_store d l (take r (pending s sock)), len = unat (pack_len + 4)\<rparr>,
        net_buffer := buffer_after (net_buffer s) r\<rparr>,
      sock_after (net_buffer s) sock r)"
  using ct wf n
  by (simp add: recv_rest_def Let_def read_pack_def set_read_pack_def r pk
      ssh_buf_get_write_pointer_def buf_fill_def stream_recv_data_after)

lemma recv_rest_cipher:
  assumes ct: "cipher_type s \<noteq> SSH_CIPHER_NONE"
    and wf: "len (net_buffer s) \<le> length (data (net_buffer s))"
    and pk: "pack s = \<lparr>data = d, len = l\<rparr>"
    and pe: "pack_enc s = \<lparr>data = e, len = le\<rparr>"
    and r: "unat (pack_len + of_nat (mac_len s) - fbl + 4) = r"
    and n: "r \<le> length (pending s sock)"
    and m: "unat (pack_len + of_nat (mac_len s) - fbl + 4 - of_nat (mac_len s)) = m"
    and enc: "enc = mem_store e le (take r (pending s sock))"
    and cc: "ssh_cipher_crypt X (cipher_ctx s) (take m (drop (unat fbl) enc)) = Some (c2, dec)"
    and mr: "mac_len s \<le> r"
  shows "recv_rest X s sock fbl pack_len =
     (Inr (),
      s\<lparr>pack := \<lparr>data = mem_store (mem_store d l dec) (unat (pack_len + 4))
                           (take (mac_len s) (drop (unat (pack_len + 4)) enc)),
                  len = unat (pack_len + 4)\<rparr>,
        pack_enc := \<lparr>data = enc, len = unat (pack_len + 4)\<rparr>,
        net_buffer := buffer_after (net_buffer s) r,
        cipher_ctx := Some c2\<rparr>,
      sock_after (net_buffer s) sock r)"
  using ct wf n cc mr m [simplified]
  by (simp add: recv_rest_def Let_def read_pack_def set_read_pack_def r pk pe enc
      ssh_buf_get_write_pointer_def buf_fill_def stream_recv_data_after)



lemma verify_read_packet_ok:
  assumes pk: "pack s = \<lparr>data = P @ T @ junk, len = length P\<rparr>"
    and P: "P = u32_be v @ pad # payload @ fill"
    and pad: "unat pad = length fill" and f4: "4 \<le> length fill"
    and al: "length P mod unat (if cipher_block_len s \<noteq> 0 then of_nat (cipher_block_len s) else 8 :: u8) = 0"
    and lT: "length T = mac_len s"
    and mac: "mac_type s \<noteq> SSH_MAC_NONE \<Longrightarrow>
                \<exists>dg. ssh_mac_compute X (mac_ctx s) (seq_num s) P = Some dg \<and> take (mac_len s) dg = T"
    and nz: "(if cipher_block_len s \<noteq> 0 then of_nat (cipher_block_len s) else 8 :: u8) \<noteq> 0"
  shows "verify_read_packet X s = Inr ()"
proof -
  have d4: "data (pack s) ! 4 = pad" by (simp add: pk P nth_append)
  have p4: "\<not> pad < 4" using pad f4 by (simp add: word_less_nat_alt)
  have l: "len (pack s) = 5 + length payload + length fill" by (simp add: pk P)
  have tk: "take (len (pack s)) (data (pack s)) = P" by (simp add: pk)
  have dr: "take (mac_len s) (drop (len (pack s)) (data (pack s))) = T" by (simp add: pk lT)
  have al': "len (pack s) mod unat (if cipher_block_len s \<noteq> 0 then of_nat (cipher_block_len s) else 8 :: u8) = 0"
    using al by (simp add: pk)
  show ?thesis
  proof (cases "mac_type s = SSH_MAC_NONE")
    case True
    then show ?thesis
      using p4 al' nz unfolding verify_read_packet_def Let_def d4
      by (simp add: l pad)
  next
    case False
    then obtain dg where "ssh_mac_compute X (mac_ctx s) (seq_num s) P = Some dg"
        "take (mac_len s) dg = T"
      using mac by blast
    then show ?thesis
      using p4 al' nz False unfolding verify_read_packet_def Let_def d4 tk dr
      by (simp add: l pad)
  qed
qed

lemma recv_payload_ok:
  assumes pk: "pack s = \<lparr>data = P @ rest, len = length P\<rparr>"
    and P: "P = u32_be v @ pad # payload @ fill"
    and pad: "unat pad = length fill"
  shows "recv_payload s = payload"
  by (simp add: recv_payload_def pk P nth_append pad)



lemma take_drop_append: "take n xs @ drop n xs @ ys = xs @ ys"
  by (metis append_assoc append_take_drop_id)

lemma recv_packet_ok:
  fixes s :: "('c, 'm) SSH_STREAM"
  assumes wf: "len (net_buffer s) \<le> length (data (net_buffer s))"
    and pend: "pending s sock = B @ T @ extra"
    and b: "b = (if cipher_block_len s = 0 then 8 else cipher_block_len s)"
    and b8: "8 \<le> b" and b255: "b \<le> 255"
    and P: "P = u32_be (of_nat (1 + length payload + length fill))
                  @ of_nat (length fill) # payload @ fill"
    and f4: "4 \<le> length fill" and f255: "length fill \<le> 255"
    and al: "length P mod b = 0"
    and sz: "5 + length payload + length fill < 2 ^ 31"
    and lB: "length B = length P"
    and plain: "cipher_type s = SSH_CIPHER_NONE \<Longrightarrow> B = P"
    and ciph: "cipher_type s \<noteq> SSH_CIPHER_NONE \<Longrightarrow>
                 \<exists>c1 c2. ssh_cipher_crypt X (cipher_ctx s) (take b B) = Some (c1, take b P)
                        \<and> cipher_crypt X c1 (drop b B) = Some (c2, drop b P)"
    and lT: "length T = mac_len s" and ml: "mac_len s < 2 ^ 31"
    and mac: "mac_type s \<noteq> SSH_MAC_NONE \<Longrightarrow>
                \<exists>dg. ssh_mac_compute X (mac_ctx s) (seq_num s) P = Some dg \<and> take (mac_len s) dg = T"
  shows "if 1 + length payload + length fill \<le> 65536
         then \<exists>s' sock'. ssh_stream_recv_packet X s sock = (Inr (), s', sock')
           \<and> recv_payload s' = payload \<and> seq_num s' = seq_num s + 1
           \<and> pending s' sock' = extra
           \<and> len (net_buffer s') \<le> length (data (net_buffer s'))
         else fst (ssh_stream_recv_packet X s sock) = Inl InvalidLength"
proof -
  define v :: u32 where "v = of_nat (1 + length payload + length fill)"
  define pad :: u8 where "pad = of_nat (length fill)"
  define fbl :: u32 where "fbl = (if cipher_block_len s = 0 then 8 else of_nat (cipher_block_len s))"
  define r where "r = length P - b + mac_len s"
  define nb1 where "nb1 = buffer_after (net_buffer s) b"
  define k1 where "k1 = sock_after (net_buffer s) sock b"
  define nb2 where "nb2 = buffer_after nb1 r"
  define k2 where "k2 = sock_after nb1 k1 r"
  have P': "P = u32_be v @ pad # payload @ fill" by (simp add: P v_def pad_def)
  have lP: "length P = 5 + length payload + length fill" by (simp add: P)
  have upad: "unat pad = length fill" using f255 by (simp add: pad_def unat_of_nat_u8)
  have uv: "unat v = 1 + length payload + length fill"
    unfolding v_def using sz by (intro unat_of_nat_u32) simp
  have v0: "v \<noteq> 0" using uv by (metis Suc_eq_plus1_left add_Suc nat.simps(3) unat_0 plus_1_eq_Suc)
  have vle: "(65536 < v) = (\<not> 1 + length payload + length fill \<le> 65536)"
    using uv by (auto simp: word_less_nat_alt)
  have bP: "b \<le> length P"
  proof -
    have "b dvd length P" using al by (simp add: dvd_eq_mod_eq_0)
    moreover have "0 < length P" by (simp add: lP)
    ultimately show ?thesis by (rule dvd_imp_le)
  qed
  have ufbl: "unat fbl = b"
    using b b255 by (auto simp: fbl_def unat_of_nat_u32)
  have fbl_b: "fbl = of_nat b" using b by (auto simp: fbl_def)
  have v4: "v + 4 = of_nat (length P)" by (simp add: v_def lP)
  have uv4: "unat (v + 4) = length P"
    unfolding v4 using sz lP by (intro unat_of_nat_u32) simp
  have rem: "v + of_nat (mac_len s) - fbl + 4 = of_nat r"
  proof -
    have "(of_nat r :: u32) = of_nat (length P + mac_len s) - of_nat b"
      unfolding r_def using bP by (simp add: of_nat_diff)
    also have "\<dots> = (v + 4) + of_nat (mac_len s) - fbl" by (simp add: v4 fbl_b)
    finally show ?thesis by (simp add: algebra_simps)
  qed
  have ur: "unat (v + of_nat (mac_len s) - fbl + 4) = r"
    unfolding rem using sz lP ml bP by (intro unat_of_nat_u32) (simp add: r_def)
  have um: "unat (v + of_nat (mac_len s) - fbl + 4 - of_nat (mac_len s)) = length P - b"
  proof -
    have "(of_nat (length P - b) :: u32) = of_nat (length P) - of_nat b"
      using bP by (simp add: of_nat_diff)
    then have "v + of_nat (mac_len s) - fbl + 4 - of_nat (mac_len s) = of_nat (length P - b)"
      by (simp add: v4 [symmetric] fbl_b algebra_simps)
    then show ?thesis using sz lP by (simp add: unat_of_nat_u32)
  qed
  have n1: "unat fbl \<le> length (pending s sock)" using bP lB by (simp add: ufbl pend)
  have tk1: "take b (pending s sock) = take b B" using bP lB by (simp add: pend)
  have wf1: "len nb1 \<le> length (data nb1)"
    unfolding nb1_def using wf n1 lB
    by (intro pending_after(2) [where sock = sock]) (simp_all add: pending_def ufbl contents_def)
  have pend1: "contents nb1 @ rx k1 = drop b B @ T @ extra"
  proof -
    have "contents nb1 @ rx k1 = drop b (contents (net_buffer s) @ rx sock)"
      unfolding nb1_def k1_def using wf n1
      by (intro pending_after(1)) (simp_all add: pending_def ufbl contents_def)
    also have "\<dots> = drop b (B @ T @ extra)" by (simp only: pend [unfolded pending_def])
    also have "\<dots> = drop b B @ T @ extra" using bP lB by simp
    finally show ?thesis .
  qed
  have n2: "r \<le> length (contents nb1 @ rx k1)"
    unfolding pend1 using bP lB lT by (simp add: r_def)
  have tk2: "take r (contents nb1 @ rx k1) = drop b B @ T"
    unfolding pend1 using bP lB lT by (simp add: r_def)
  have wf2: "len nb2 \<le> length (data nb2)"
    unfolding nb2_def using wf1 n2
    by (intro pending_after(2) [where sock = k1]) (simp_all add: contents_def)
  have pend2: "contents nb2 @ rx k2 = extra"
  proof -
    have "contents nb2 @ rx k2 = drop r (contents nb1 @ rx k1)"
      unfolding nb2_def k2_def using wf1 n2
      by (intro pending_after(1)) (simp_all add: contents_def)
    then show ?thesis unfolding pend1 using bP lB lT by (simp add: r_def)
  qed
  have hd: "take b P = u32_be v @ take (b - 4) (pad # payload @ fill)"
    using b8 by (simp add: P')
  have bl: "unat (if cipher_block_len s \<noteq> 0 then of_nat (cipher_block_len s) else 8 :: u8) = b"
    using b b255 by (auto simp: unat_of_nat_u8)
  have nz: "(if cipher_block_len s \<noteq> 0 then of_nat (cipher_block_len s) else 8 :: u8) \<noteq> 0"
    using b8 unfolding unat_gt_0 [symmetric] bl by simp
  show ?thesis
  proof (cases "cipher_type s = SSH_CIPHER_NONE")
    case True
    then have BP: "B = P" by (rule plain)
    define s1 where "s1 = s\<lparr>pack := \<lparr>data = mem_store (data (pack s)) 0 (take b P), len = b\<rparr>,
                            net_buffer := nb1\<rparr>"
    have fb: "recv_first_block X s sock fbl = (Inr (), s1, k1)"
      using recv_first_block_plain [OF True wf n1, of X]
      by (simp add: ufbl tk1 BP s1_def nb1_def k1_def)
    have pl: "ssh_buf_get_u32 (data (pack s1)) = v"
      by (simp add: s1_def mem_store_0 hd ssh_buf_get_u32_be)
    define s2 where "s2 = s1\<lparr>pack := \<lparr>data = mem_store (mem_store (data (pack s)) 0 (take b P)) b
                                       (drop b P @ T), len = length P\<rparr>,
                             net_buffer := nb2\<rparr>"
    have rest: "recv_rest X s1 k1 fbl v = (Inr (), s2, k2)"
    proof -
      have a: "cipher_type s1 = SSH_CIPHER_NONE" by (simp add: s1_def True)
      have b': "len (net_buffer s1) \<le> length (data (net_buffer s1))" by (simp add: s1_def wf1)
      have c: "pack s1 = \<lparr>data = mem_store (data (pack s)) 0 (take b P), len = b\<rparr>"
        by (simp add: s1_def)
      have d: "unat (v + of_nat (mac_len s1) - fbl + 4) = r" by (simp add: s1_def ur)
      have e: "r \<le> length (pending s1 k1)" using n2 by (simp add: pending_def s1_def)
      show ?thesis
        using recv_rest_plain [OF a b' c d e, of X] tk2
        by (simp add: s2_def uv4 pending_def BP nb2_def k2_def) (simp add: s1_def)
    qed
    have pk2: "\<exists>junk. pack s2 = \<lparr>data = P @ T @ junk, len = length P\<rparr>"
      using bP by (simp add: s2_def mem_store_0 mem_store_end take_drop_append)
    then obtain junk where pk2: "pack s2 = \<lparr>data = P @ T @ junk, len = length P\<rparr>" by blast
    have ver: "verify_read_packet X s2 = Inr ()"
    proof (rule verify_read_packet_ok [OF pk2 P' upad f4])
      have cb2: "cipher_block_len s2 = cipher_block_len s" by (simp add: s2_def s1_def)
      show "length P mod unat (if cipher_block_len s2 \<noteq> 0 then of_nat (cipher_block_len s2)
                else 8 :: u8) = 0"
        unfolding cb2 bl by (rule al)
      show "(if cipher_block_len s2 \<noteq> 0 then of_nat (cipher_block_len s2) else 8 :: u8) \<noteq> 0"
        unfolding cb2 by (rule nz)
      show "length T = mac_len s2" by (simp add: s2_def s1_def lT)
      show "\<exists>dg. ssh_mac_compute X (mac_ctx s2) (seq_num s2) P = Some dg
                 \<and> take (mac_len s2) dg = T" if "mac_type s2 \<noteq> SSH_MAC_NONE"
        using that mac by (simp add: s2_def s1_def)
    qed
    have pay: "recv_payload (s2\<lparr>seq_num := seq_num s2 + 1\<rparr>) = payload"
      using recv_payload_ok [OF pk2 P' upad] by (simp add: recv_payload_def)
    have "ssh_stream_recv_packet X s sock = (Inr (), s2\<lparr>seq_num := seq_num s2 + 1\<rparr>, k2)"
      if "1 + length payload + length fill \<le> 65536"
      using v0 vle that
      by (simp add: ssh_stream_recv_packet_def Let_def fbl_def[symmetric] fb pl rest ver)
    moreover have "seq_num (s2\<lparr>seq_num := seq_num s2 + 1\<rparr>) = seq_num s + 1"
      by (simp add: s2_def s1_def)
    moreover have "pending (s2\<lparr>seq_num := seq_num s2 + 1\<rparr>) k2 = extra"
      using pend2 by (simp add: pending_def s2_def)
    moreover have "len (net_buffer (s2\<lparr>seq_num := seq_num s2 + 1\<rparr>))
                     \<le> length (data (net_buffer (s2\<lparr>seq_num := seq_num s2 + 1\<rparr>)))"
      using wf2 by (simp add: s2_def)
    ultimately have good: "\<exists>s' sock'. ssh_stream_recv_packet X s sock = (Inr (), s', sock')
           \<and> recv_payload s' = payload \<and> seq_num s' = seq_num s + 1
           \<and> pending s' sock' = extra
           \<and> len (net_buffer s') \<le> length (data (net_buffer s'))"
      if "1 + length payload + length fill \<le> 65536"
      using pay that by blast
    have bad: "fst (ssh_stream_recv_packet X s sock) = Inl InvalidLength"
      if "\<not> 1 + length payload + length fill \<le> 65536"
      using that vle
      by (simp add: ssh_stream_recv_packet_def Let_def fbl_def[symmetric] fb pl)
    show ?thesis using good bad by simp
  next
    case False
    then obtain c1 c2 where
      d1: "ssh_cipher_crypt X (cipher_ctx s) (take b B) = Some (c1, take b P)"
      and d2: "cipher_crypt X c1 (drop b B) = Some (c2, drop b P)"
      using ciph by blast
    define s1 where "s1 = s\<lparr>pack := \<lparr>data = mem_store (data (pack s)) 0 (take b P), len = b\<rparr>,
        pack_enc := \<lparr>data = mem_store (data (pack_enc s)) 0 (take b B), len = b\<rparr>,
        net_buffer := nb1, cipher_ctx := Some c1\<rparr>"
    have fb: "recv_first_block X s sock fbl = (Inr (), s1, k1)"
      using recv_first_block_cipher [OF False wf n1, of X c1 "take b P"] d1
      by (simp add: ufbl tk1 s1_def nb1_def k1_def)
    have pl: "ssh_buf_get_u32 (data (pack s1)) = v"
      by (simp add: s1_def mem_store_0 hd ssh_buf_get_u32_be)
    define enc where "enc = mem_store (mem_store (data (pack_enc s)) 0 (take b B)) b (drop b B @ T)"
    have enc: "\<exists>junk. enc = B @ T @ junk"
      using bP lB by (simp add: enc_def mem_store_0 mem_store_end take_drop_append)
    then obtain ej where ej: "enc = B @ T @ ej" by blast
    define s2 where "s2 = s1\<lparr>pack := \<lparr>data = mem_store (mem_store (mem_store (data (pack s)) 0 (take b P)) b (drop b P))
                                     (length P) (take (mac_len s) (drop (length P) enc)),
                                  len = length P\<rparr>,
        pack_enc := \<lparr>data = enc, len = length P\<rparr>,
        net_buffer := nb2, cipher_ctx := Some c2\<rparr>"
    have rest: "recv_rest X s1 k1 fbl v = (Inr (), s2, k2)"
    proof -
      have a: "cipher_type s1 \<noteq> SSH_CIPHER_NONE" by (simp add: s1_def False)
      have b': "len (net_buffer s1) \<le> length (data (net_buffer s1))" by (simp add: s1_def wf1)
      have c: "pack s1 = \<lparr>data = mem_store (data (pack s)) 0 (take b P), len = b\<rparr>"
        by (simp add: s1_def)
      have c': "pack_enc s1 = \<lparr>data = mem_store (data (pack_enc s)) 0 (take b B), len = b\<rparr>"
        by (simp add: s1_def)
      have d: "unat (v + of_nat (mac_len s1) - fbl + 4) = r" by (simp add: s1_def ur)
      have e: "r \<le> length (pending s1 k1)" using n2 by (simp add: pending_def s1_def)
      have f: "unat (v + of_nat (mac_len s1) - fbl + 4 - of_nat (mac_len s1)) = length P - b"
        using um by (simp add: s1_def)
      have g: "enc = mem_store (mem_store (data (pack_enc s)) 0 (take b B)) b (take r (pending s1 k1))"
        using tk2 by (simp add: enc_def pending_def s1_def)
      have h: "ssh_cipher_crypt X (cipher_ctx s1) (take (length P - b) (drop (unat fbl) enc))
                 = Some (c2, drop b P)"
        using d2 lB bP by (simp add: ufbl ej s1_def ssh_cipher_crypt_def)
      have i: "mac_len s1 \<le> r" by (simp add: s1_def r_def)
      show ?thesis
        using recv_rest_cipher [OF a b' c c' d e f g h i]
        by (simp add: s2_def uv4 nb2_def k2_def) (simp add: s1_def)
    qed
    have "\<exists>junk. pack s2 = \<lparr>data = P @ T @ junk, len = length P\<rparr>"
      using bP lB lT
      by (simp add: s2_def mem_store_0 mem_store_end ej take_drop_append mem_store_def)
    then obtain junk where pk2: "pack s2 = \<lparr>data = P @ T @ junk, len = length P\<rparr>" by blast
    have ver: "verify_read_packet X s2 = Inr ()"
    proof (rule verify_read_packet_ok [OF pk2 P' upad f4])
      have cb2: "cipher_block_len s2 = cipher_block_len s" by (simp add: s2_def s1_def)
      show "length P mod unat (if cipher_block_len s2 \<noteq> 0 then of_nat (cipher_block_len s2)
                else 8 :: u8) = 0"
        unfolding cb2 bl by (rule al)
      show "(if cipher_block_len s2 \<noteq> 0 then of_nat (cipher_block_len s2) else 8 :: u8) \<noteq> 0"
        unfolding cb2 by (rule nz)
      show "length T = mac_len s2" by (simp add: s2_def s1_def lT)
      show "\<exists>dg. ssh_mac_compute X (mac_ctx s2) (seq_num s2) P = Some dg
                 \<and> take (mac_len s2) dg = T" if "mac_type s2 \<noteq> SSH_MAC_NONE"
        using that mac by (simp add: s2_def s1_def)
    qed
    have pay: "recv_payload (s2\<lparr>seq_num := seq_num s2 + 1\<rparr>) = payload"
      using recv_payload_ok [OF pk2 P' upad] by (simp add: recv_payload_def)
    have "ssh_stream_recv_packet X s sock = (Inr (), s2\<lparr>seq_num := seq_num s2 + 1\<rparr>, k2)"
      if "1 + length payload + length fill \<le> 65536"
      using v0 vle that
      by (simp add: ssh_stream_recv_packet_def Let_def fbl_def[symmetric] fb pl rest ver)
    moreover have "seq_num (s2\<lparr>seq_num := seq_num s2 + 1\<rparr>) = seq_num s + 1"
      by (simp add: s2_def s1_def)
    moreover have "pending (s2\<lparr>seq_num := seq_num s2 + 1\<rparr>) k2 = extra"
      using pend2 by (simp add: pending_def s2_def)
    moreover have "len (net_buffer (s2\<lparr>seq_num := seq_num s2 + 1\<rparr>))
                     \<le> length (data (net_buffer (s2\<lparr>seq_num := seq_num s2 + 1\<rparr>)))"
      using wf2 by (simp add: s2_def)
    ultimately have good: "\<exists>s' sock'. ssh_stream_recv_packet X s sock = (Inr (), s', sock')
           \<and> recv_payload s' = payload \<and> seq_num s' = seq_num s + 1
           \<and> pending s' sock' = extra
           \<and> len (net_buffer s') \<le> length (data (net_buffer s'))"
      if "1 + length payload + length fill \<le> 65536"
      using pay that by blast
    have bad: "fst (ssh_stream_recv_packet X s sock) = Inl InvalidLength"
      if "\<not> 1 + length payload + length fill \<le> 65536"
      using that vle
      by (simp add: ssh_stream_recv_packet_def Let_def fbl_def[symmetric] fb pl)
    show ?thesis using good bad by simp
  qed
qed

section \<open>Claims about receiving\<close>

text \<open>
  C6. Receive-failure atomicity: whenever \<^verbatim>\<open>ssh_stream_recv_packet\<close> fails, with
  whatever error (a MAC mismatch, an invalid length and an invalid padding among them),
  the stream's \<^verbatim>\<open>seq_num\<close> is what it was before the call.
\<close>

theorem recv_failure_keeps_seq_num:
  assumes "ssh_stream_recv_packet X s sock = (Inl e, s', sock')"
  shows "seq_num s' = seq_num s"
  using assms recv_packet_seq_num [of X s sock] by simp

text \<open>
  The theorem at the specification's fourth scenario: the keyed stream receives its
  peer's packet with one payload bit flipped, fails with a MAC mismatch and keeps its
  sequence number.
\<close>

theorem recv_failure_keeps_seq_num_witness:
  "fst (ssh_stream_recv_packet toy_extern keyed_stream (sock_with tampered_wire)) = Inl MacMismatch
   \<and> seq_num (fst (snd (ssh_stream_recv_packet toy_extern keyed_stream (sock_with tampered_wire))))
       = seq_num keyed_stream"
proof -
  let ?r = "ssh_stream_recv_packet toy_extern keyed_stream (sock_with tampered_wire)"
  have f: "fst ?r = Inl MacMismatch" by (rule tampered_recv)
  then have "?r = (Inl MacMismatch, fst (snd ?r), snd (snd ?r))" by (metis prod.collapse)
  from recv_failure_keeps_seq_num [OF this] f show ?thesis by simp
qed


text \<open>
  C5, as the code has it. Once the first block has been read (and decrypted when a
  cipher is installed), \<^verbatim>\<open>ssh_stream_recv_packet\<close> rejects the packet with "invalid
  packet size", before it reads anything more, exactly when the parsed length is 0 or
  greater than 65536. Every packet that it accepts has a length whose sum with 4 is a
  multiple of the block length \<open>max(cipher_block_len, 8)\<close>, for a cipher block length
  of 0 or of 8 to 255. Nothing more is stated of a packet whose length is in range and
  is not such a multiple: the code does not look at that before it reads the rest, and
  for a length below the first block the lengths it computes wrap
  (\<open>recv_short_length_keyed\<close>, \<open>recv_short_length_fresh\<close>).
\<close>

theorem recv_length_validation:
  assumes "recv_first_block X s sock
             (if cipher_block_len s = 0 then 8 else of_nat (cipher_block_len s)) = (Inr (), s1, sock1)"
    and "pack_len = ssh_buf_get_u32 (data (pack s1))"
    and "cipher_block_len s = 0 \<or> 8 \<le> cipher_block_len s \<and> cipher_block_len s \<le> 255"
  shows "((fst (ssh_stream_recv_packet X s sock) = Inl InvalidLength)
            = (pack_len = 0 \<or> 65536 < pack_len))
       \<and> (pack_len = 0 \<or> 65536 < pack_len \<longrightarrow>
            ssh_stream_recv_packet X s sock = (Inl InvalidLength, s1, sock1))
       \<and> (fst (ssh_stream_recv_packet X s sock) = Inr () \<longrightarrow>
            (unat pack_len + 4) mod max (cipher_block_len s) 8 = 0)"
proof (intro conjI impI)
  show "(fst (ssh_stream_recv_packet X s sock) = Inl InvalidLength)
          = (pack_len = 0 \<or> 65536 < pack_len)"
    by (rule recv_length_check_aux(1) [OF assms(1,2)])
  show "ssh_stream_recv_packet X s sock = (Inl InvalidLength, s1, sock1)"
    if "pack_len = 0 \<or> 65536 < pack_len"
    by (rule recv_length_check_aux(2) [OF assms(1,2) that])
  show "(unat pack_len + 4) mod max (cipher_block_len s) 8 = 0"
    if "fst (ssh_stream_recv_packet X s sock) = Inr ()"
    by (rule recv_length_check_aux(3) [OF assms(1,2,3) that])
qed


text \<open>
  The theorem at a fresh stream: the sixteen octets of the first scenario are accepted
  (length 12, and 16 is a multiple of 8), a first block that announces 65537 octets is
  rejected at once.
\<close>

theorem recv_length_validation_witness:
  "fst (recv_first_block toy_extern fresh_stream (sock_with hello_wire) 8) = Inr ()
   \<and> ssh_buf_get_u32 (data (pack (fst (snd
          (recv_first_block toy_extern fresh_stream (sock_with hello_wire) 8))))) = 12
   \<and> fst (ssh_stream_recv_packet toy_extern fresh_stream (sock_with hello_wire)) = Inr ()
   \<and> (unat (12 :: u32) + 4) mod max (cipher_block_len fresh_stream) 8 = 0
   \<and> fst (recv_first_block toy_extern fresh_stream (sock_with oversize_wire) 8) = Inr ()
   \<and> ssh_buf_get_u32 (data (pack (fst (snd
          (recv_first_block toy_extern fresh_stream (sock_with oversize_wire) 8))))) = 65537
   \<and> fst (ssh_stream_recv_packet toy_extern fresh_stream (sock_with oversize_wire))
       = Inl InvalidLength"
proof -
  let ?a = "recv_first_block toy_extern fresh_stream (sock_with hello_wire) 8"
  let ?b = "recv_first_block toy_extern fresh_stream (sock_with oversize_wire) 8"
  have c: "cipher_block_len fresh_stream = 0 \<or>
           8 \<le> cipher_block_len fresh_stream \<and> cipher_block_len fresh_stream \<le> 255"
    by (simp add: fresh_stream_def ssh_stream_init_def)
  have c0: "(if cipher_block_len fresh_stream = 0 then 8
             else of_nat (cipher_block_len fresh_stream) :: u32) = 8"
    by (simp add: fresh_stream_def ssh_stream_init_def)
  have a1: "fst ?a = Inr ()" by (simp add: eval_defs)
  have a2: "ssh_buf_get_u32 (data (pack (fst (snd ?a)))) = 12" by (simp add: eval_defs)
  have a3: "fst (ssh_stream_recv_packet toy_extern fresh_stream (sock_with hello_wire)) = Inr ()"
    by (simp add: eval_defs)
  have b1: "fst ?b = Inr ()" by (simp add: eval_defs)
  have b2: "ssh_buf_get_u32 (data (pack (fst (snd ?b)))) = 65537" by (simp add: eval_defs)
  have a: "recv_first_block toy_extern fresh_stream (sock_with hello_wire)
             (if cipher_block_len fresh_stream = 0 then 8
              else of_nat (cipher_block_len fresh_stream)) = (Inr (), fst (snd ?a), snd (snd ?a))"
    unfolding c0 using a1 by (metis prod.collapse)
  have b: "recv_first_block toy_extern fresh_stream (sock_with oversize_wire)
             (if cipher_block_len fresh_stream = 0 then 8
              else of_nat (cipher_block_len fresh_stream)) = (Inr (), fst (snd ?b), snd (snd ?b))"
    unfolding c0 using b1 by (metis prod.collapse)
  have "(unat (12 :: u32) + 4) mod max (cipher_block_len fresh_stream) 8 = 0"
    using recv_length_validation [OF a a2 [symmetric] c] a3 by blast
  moreover have "fst (ssh_stream_recv_packet toy_extern fresh_stream (sock_with oversize_wire))
       = Inl InvalidLength"
    using recv_length_validation [OF b b2 [symmetric] c] by simp
  ultimately show ?thesis using a1 a2 a3 b1 b2 by blast
qed

text \<open>
  C5 as stated does not hold. A packet whose length field is 5 (5 + 4 is not a multiple
  of 8) and whose padding length is 0 is rejected with "bad padding length", not with
  an invalid length; and a length field of 65536, which is greater than 65535, is not
  rejected after the first block: the stream goes on to read the rest of the packet
  (and here fails because the socket has no more).
\<close>

theorem recv_length_validation_counterexample:
  "(ssh_buf_get_u32 [0x00, 0x00, 0x00, 0x05] + 4) mod 8 \<noteq> 0
   \<and> fst (ssh_stream_recv_packet toy_extern fresh_stream
           (sock_with [0x00, 0x00, 0x00, 0x05, 0x00, 0x00, 0x00, 0x00, 0x00])) = Inl InvalidPadding
   \<and> (65535 :: u32) < ssh_buf_get_u32 [0x00, 0x01, 0x00, 0x00]
   \<and> fst (ssh_stream_recv_packet toy_extern fresh_stream
           (sock_with [0x00, 0x01, 0x00, 0x00, 0x04, 0x00, 0x00, 0x00])) = Inl IoError"
  by (simp add: eval_defs)

section \<open>Sending and receiving together\<close>


lemma send_packet_seq_num:
  "seq_num (fst (snd (ssh_stream_send_packet X s sock)))
     = (if fst (finish_packet X s) = Inr () then seq_num s + 1 else seq_num s)"
proof -
  have "seq_num (snd (finish_packet X s)) = seq_num s" by (rule finish_packet_seq_num)
  then show ?thesis
    by (auto simp: ssh_stream_send_packet_def ssh_net_write_all_def Let_def
        split: prod.splits sum.splits)
qed

lemma send_after_pad_wire:
  assumes pk: "pack (finish_packet_pad X s) = \<lparr>data = P @ junk, len = length P\<rparr>"
    and ci: "cipher_type s \<noteq> SSH_CIPHER_NONE \<Longrightarrow>
               ssh_cipher_crypt X (cipher_ctx s) P = Some (c', enc) \<and> length enc = length P"
    and ma: "mac_type s \<noteq> SSH_MAC_NONE \<Longrightarrow>
               ssh_mac_compute X (mac_ctx s) (seq_num s) P = Some dg \<and> length dg = mac_len s"
    and m0: "mac_type s = SSH_MAC_NONE \<Longrightarrow> mac_len s = 0"
    and op: "tx_open sock"
  shows "fst (ssh_stream_send_packet X s sock) = Inr ()"
    and "tx (snd (snd (ssh_stream_send_packet X s sock)))
           = tx sock @ (if cipher_type s = SSH_CIPHER_NONE then P else enc)
               @ (if mac_type s = SSH_MAC_NONE then [] else dg)"
    and "seq_num (fst (snd (ssh_stream_send_packet X s sock))) = seq_num s + 1"
proof -
  show ok: "fst (ssh_stream_send_packet X s sock) = Inr ()"
    using ci ma op by (auto simp: send_after_pad_status [OF pk])
  then have "fst (finish_packet X s) = Inr ()" by (simp add: finish_packet_status_frame)
  then show "seq_num (fst (snd (ssh_stream_send_packet X s sock))) = seq_num s + 1"
    by (simp add: send_packet_seq_num)
  show "tx (snd (snd (ssh_stream_send_packet X s sock)))
           = tx sock @ (if cipher_type s = SSH_CIPHER_NONE then P else enc)
               @ (if mac_type s = SSH_MAC_NONE then [] else dg)"
    using ci ma m0 op
    by (cases "cipher_type s = SSH_CIPHER_NONE"; cases "mac_type s = SSH_MAC_NONE")
       (simp_all add: ssh_stream_send_packet_def finish_packet_def finish_packet_encrypt_def
        finish_packet_mac_def Let_def split_def pk finish_packet_pad_fields
        ssh_buf_get_write_pointer_def ssh_buf_clear_def buf_fill_def ssh_buf_grow_def
        ssh_net_write_all_def mem_store_def)
qed



lemma round_trip_aux:
  fixes sender receiver :: "('c, 'm) SSH_STREAM"
  assumes ok: "stream_ok sender"
    and keys: "matching_keys X sender receiver"
    and mac: "mac_ready X sender"
    and nb: "len (net_buffer receiver) \<le> length (data (net_buffer receiver))"
    and size: "length payload + 260 < 2 ^ 31"
    and op: "tx_open out"
    and wire: "pending receiver inp
                 = drop (length (tx out))
                     (tx (snd (snd (ssh_stream_send_packet X (build_packet sender payload) out))))
                   @ extra"
  shows "fst (ssh_stream_send_packet X (build_packet sender payload) out) = Inr ()"
    and "seq_num (fst (snd (ssh_stream_send_packet X (build_packet sender payload) out)))
           = seq_num sender + 1"
    and "if 1 + length payload + wire_pad_len (cipher_block_len sender) (length payload) \<le> 65536
         then \<exists>s' sock'. ssh_stream_recv_packet X receiver inp = (Inr (), s', sock')
           \<and> recv_payload s' = payload \<and> seq_num s' = seq_num receiver + 1
           \<and> pending s' sock' = extra
           \<and> len (net_buffer s') \<le> length (data (net_buffer s'))
         else fst (ssh_stream_recv_packet X receiver inp) = Inl InvalidLength"
proof -
  let ?s0 = "build_packet sender payload"
  let ?P = "plain_packet X sender payload"
  let ?c = "cipher_block_len sender"
  let ?w = "wire_pad_len ?c (length payload)"
  let ?fill = "wire_padding X (cipher_type sender) ?w"
  define b where "b = (if cipher_block_len receiver = 0 then 8 else cipher_block_len receiver)"
  have c252: "?c \<le> 252" and c8: "?c = 0 \<or> 8 \<le> ?c" and ml: "mac_len sender < 2 ^ 31"
    and m0: "mac_type sender = SSH_MAC_NONE \<Longrightarrow> mac_len sender = 0"
    using ok by (auto simp: stream_ok_def)
  have k: "cipher_type receiver = cipher_type sender" "cipher_block_len receiver = ?c"
    "mac_type receiver = mac_type sender" "mac_len receiver = mac_len sender"
    "mac_ctx receiver = mac_ctx sender" "seq_num receiver = seq_num sender"
    using keys by (simp_all add: matching_keys_def)
  have bw: "b = wire_block ?c" using c8 by (auto simp: b_def wire_block_def k)
  have b8: "8 \<le> b" and b255: "b \<le> 255" using c8 c252 by (auto simp: b_def k)
  have size32: "length payload + 260 < 2 ^ 32" using size by simp
  have w: "4 \<le> ?w" "?w \<le> 255" "(5 + length payload + ?w) mod wire_block ?c = 0"
    using wire_pad_len_bounds [OF c252] by simp_all
  have lf: "length ?fill = ?w" by (simp add: wire_padding_def)
  have lP: "length ?P = 5 + length payload + ?w" by (rule length_plain_packet)
  have P0: "?P \<noteq> []" using lP by auto
  have al: "length ?P mod b = 0" using w(3) by (simp add: lP bw)
  have Pf: "?P = u32_be (of_nat (1 + length payload + length ?fill))
                   @ of_nat (length ?fill) # payload @ ?fill"
    by (simp add: plain_packet_header lf)
  obtain junk where pk: "pack (finish_packet_pad X ?s0) = \<lparr>data = ?P @ junk, len = length ?P\<rparr>"
    using pad_stage_pack [OF c252 size32] by blast
  \<comment> \<open>the cipher\<close>
  have "\<exists>ce' enc. cipher_type sender \<noteq> SSH_CIPHER_NONE \<longrightarrow>
           ssh_cipher_crypt X (cipher_ctx sender) ?P = Some (ce', enc) \<and> length enc = length ?P
           \<and> (\<exists>c1 c2. ssh_cipher_crypt X (cipher_ctx receiver) (take b enc) = Some (c1, take b ?P)
                  \<and> cipher_crypt X c1 (drop b enc) = Some (c2, drop b ?P))"
  proof (cases "cipher_type sender = SSH_CIPHER_NONE")
    case True
    then show ?thesis by simp
  next
    case False
    then have "cipher_pair X (cipher_ctx sender) (cipher_ctx receiver) b"
      using keys by (simp add: matching_keys_def bw)
    then have "?P \<noteq> [] \<and> length ?P mod b = 0 \<longrightarrow>
        (\<exists>ce' c1 c2 enc.
           ssh_cipher_crypt X (cipher_ctx sender) ?P = Some (ce', enc) \<and> length enc = length ?P
           \<and> ssh_cipher_crypt X (cipher_ctx receiver) (take b enc) = Some (c1, take b ?P)
           \<and> cipher_crypt X c1 (drop b enc) = Some (c2, drop b ?P))"
      unfolding cipher_pair_def by (rule spec)
    then obtain ce' c1 c2 enc where
      "ssh_cipher_crypt X (cipher_ctx sender) ?P = Some (ce', enc)" "length enc = length ?P"
      "ssh_cipher_crypt X (cipher_ctx receiver) (take b enc) = Some (c1, take b ?P)"
      "cipher_crypt X c1 (drop b enc) = Some (c2, drop b ?P)"
      using P0 al by blast
    then show ?thesis by blast
  qed
  then obtain ce' enc where
    ci: "cipher_type sender \<noteq> SSH_CIPHER_NONE \<Longrightarrow>
           ssh_cipher_crypt X (cipher_ctx sender) ?P = Some (ce', enc) \<and> length enc = length ?P"
    and de: "cipher_type sender \<noteq> SSH_CIPHER_NONE \<Longrightarrow>
           \<exists>c1 c2. ssh_cipher_crypt X (cipher_ctx receiver) (take b enc) = Some (c1, take b ?P)
                  \<and> cipher_crypt X c1 (drop b enc) = Some (c2, drop b ?P)"
    by blast
  \<comment> \<open>the MAC\<close>
  have "\<exists>dg. mac_type sender \<noteq> SSH_MAC_NONE \<longrightarrow>
           ssh_mac_compute X (mac_ctx sender) (seq_num sender) ?P = Some dg
           \<and> length dg = mac_len sender"
    using mac by (auto simp: mac_ready_def ssh_mac_compute_def)
  then obtain dg where
    ma: "mac_type sender \<noteq> SSH_MAC_NONE \<Longrightarrow>
           ssh_mac_compute X (mac_ctx sender) (seq_num sender) ?P = Some dg
           \<and> length dg = mac_len sender"
    by blast
  define B where "B = (if cipher_type sender = SSH_CIPHER_NONE then ?P else enc)"
  define T where "T = (if mac_type sender = SSH_MAC_NONE then [] else dg)"
  have snd_ok: "fst (ssh_stream_send_packet X ?s0 out) = Inr ()"
    and snd_tx: "tx (snd (snd (ssh_stream_send_packet X ?s0 out))) = tx out @ B @ T"
    and snd_seq: "seq_num (fst (snd (ssh_stream_send_packet X ?s0 out))) = seq_num sender + 1"
  proof -
    have ci': "cipher_type ?s0 \<noteq> SSH_CIPHER_NONE \<Longrightarrow>
           ssh_cipher_crypt X (cipher_ctx ?s0) ?P = Some (ce', enc) \<and> length enc = length ?P"
      using ci unfolding build_packet_fields by blast
    have ma': "mac_type ?s0 \<noteq> SSH_MAC_NONE \<Longrightarrow>
           ssh_mac_compute X (mac_ctx ?s0) (seq_num ?s0) ?P = Some dg
           \<and> length dg = mac_len ?s0"
      using ma unfolding build_packet_fields by blast
    have m0': "mac_type ?s0 = SSH_MAC_NONE \<Longrightarrow> mac_len ?s0 = 0"
      using m0 unfolding build_packet_fields by blast
    note r = send_after_pad_wire [OF pk ci' ma' m0' op]
    show "fst (ssh_stream_send_packet X ?s0 out) = Inr ()" by (rule r(1))
    show "tx (snd (snd (ssh_stream_send_packet X ?s0 out))) = tx out @ B @ T"
      using r(2) unfolding build_packet_fields B_def T_def .
    show "seq_num (fst (snd (ssh_stream_send_packet X ?s0 out))) = seq_num sender + 1"
      using r(3) unfolding build_packet_fields .
  qed
  show "fst (ssh_stream_send_packet X ?s0 out) = Inr ()" by (rule snd_ok)
  show "seq_num (fst (snd (ssh_stream_send_packet X ?s0 out))) = seq_num sender + 1"
    by (rule snd_seq)
  have pend: "pending receiver inp = B @ T @ extra" by (simp add: wire snd_tx)
  have lB: "length B = length ?P" using ci by (auto simp: B_def)
  have lT: "length T = mac_len receiver" using ma m0 by (auto simp: T_def k)
  have "if 1 + length payload + length ?fill \<le> 65536
         then \<exists>s' sock'. ssh_stream_recv_packet X receiver inp = (Inr (), s', sock')
           \<and> recv_payload s' = payload \<and> seq_num s' = seq_num receiver + 1
           \<and> pending s' sock' = extra
           \<and> len (net_buffer s') \<le> length (data (net_buffer s'))
         else fst (ssh_stream_recv_packet X receiver inp) = Inl InvalidLength"
  proof (rule recv_packet_ok [OF nb pend b_def b8 b255 Pf _ _ al _ lB _ _ lT])
    show "4 \<le> length ?fill" using w by (simp add: lf)
    show "length ?fill \<le> 255" using w by (simp add: lf)
    show "5 + length payload + length ?fill < 2 ^ 31" using size w by (simp add: lf)
    show "B = ?P" if "cipher_type receiver = SSH_CIPHER_NONE"
      using that by (simp add: B_def k)
    show "\<exists>c1 c2. ssh_cipher_crypt X (cipher_ctx receiver) (take b B) = Some (c1, take b ?P)
            \<and> cipher_crypt X c1 (drop b B) = Some (c2, drop b ?P)"
      if "cipher_type receiver \<noteq> SSH_CIPHER_NONE"
      using that de by (simp add: B_def k)
    show "mac_len receiver < 2 ^ 31" using ml by (simp add: k)
    show "\<exists>d. ssh_mac_compute X (mac_ctx receiver) (seq_num receiver) ?P = Some d
             \<and> take (mac_len receiver) d = T"
      if "mac_type receiver \<noteq> SSH_MAC_NONE"
      using that ma by (auto simp: T_def k)
  qed
  then show "if 1 + length payload + ?w \<le> 65536
         then \<exists>s' sock'. ssh_stream_recv_packet X receiver inp = (Inr (), s', sock')
           \<and> recv_payload s' = payload \<and> seq_num s' = seq_num receiver + 1
           \<and> pending s' sock' = extra
           \<and> len (net_buffer s') \<le> length (data (net_buffer s'))
         else fst (ssh_stream_recv_packet X receiver inp) = Inl InvalidLength"
    by (simp only: lf)
qed

lemma toy_cipher_pair: "cipher_pair toy_extern (Some k) (Some k) b"
  by (auto simp: cipher_pair_def ssh_cipher_crypt_def toy_extern_def toy_crypt_def
      take_map drop_map o_def xor.assoc)

lemma keyed_stream_ok: "stream_ok keyed_stream"
  by (simp add: stream_ok_def keyed_stream_def ssh_stream_init_def ssh_buf_new_def)

lemma keyed_matching: "matching_keys toy_extern keyed_stream keyed_stream"
  using toy_cipher_pair [of "0x5a"]
  by (simp add: matching_keys_def keyed_stream_def ssh_stream_init_def)

lemma keyed_mac_ready: "mac_ready toy_extern keyed_stream"
  by (simp add: mac_ready_def keyed_stream_def ssh_stream_init_def toy_extern_def toy_digest_def)

section \<open>The round trip\<close>

text \<open>
  C1. Round trip: a payload is appended to a packet built with
  \<^verbatim>\<open>ssh_stream_new_packet\<close> and sent with \<^verbatim>\<open>ssh_stream_send_packet\<close>; a stream with
  matching cipher and MAC state and the same \<^verbatim>\<open>seq_num\<close> then reads what was written
  (from its read-ahead buffer and its socket, possibly followed by more octets). The
  send succeeds; when the packet is within the receiver's limit (a packet length of at
  most 65536) \<^verbatim>\<open>ssh_stream_recv_packet\<close> succeeds, the payload it exposes (the octets at
  offset 5 up to \<open>pack_len + 4 - pad_len\<close>) is the original payload, both sequence
  numbers have advanced by one, and the octets after the packet are left unread; a
  longer packet is not received at all (invalid length).
\<close>

theorem round_trip:
  fixes sender receiver :: "('c, 'm) SSH_STREAM"
  assumes "stream_ok sender" and "matching_keys X sender receiver" and "mac_ready X sender"
    and "len (net_buffer receiver) \<le> length (data (net_buffer receiver))"
    and "length payload + 260 < 2 ^ 31"
    and "tx_open out"
    and "pending receiver inp
           = drop (length (tx out))
               (tx (snd (snd (ssh_stream_send_packet X (build_packet sender payload) out))))
             @ extra"
  shows "fst (ssh_stream_send_packet X (build_packet sender payload) out) = Inr ()
       \<and> (if 1 + length payload + wire_pad_len (cipher_block_len sender) (length payload) \<le> 65536
          then fst (ssh_stream_recv_packet X receiver inp) = Inr ()
             \<and> recv_payload (fst (snd (ssh_stream_recv_packet X receiver inp))) = payload
             \<and> seq_num (fst (snd (ssh_stream_recv_packet X receiver inp)))
                 = seq_num (fst (snd (ssh_stream_send_packet X (build_packet sender payload) out)))
             \<and> pending (fst (snd (ssh_stream_recv_packet X receiver inp)))
                  (snd (snd (ssh_stream_recv_packet X receiver inp))) = extra
          else fst (ssh_stream_recv_packet X receiver inp) = Inl InvalidLength)"
proof -
  note r = round_trip_aux [OF assms]
  have sq: "seq_num receiver = seq_num sender"
    using assms(2) by (simp add: matching_keys_def)
  show ?thesis
  proof (cases "1 + length payload + wire_pad_len (cipher_block_len sender) (length payload) \<le> 65536")
    case True
    then obtain s' sock' where "ssh_stream_recv_packet X receiver inp = (Inr (), s', sock')"
        "recv_payload s' = payload" "seq_num s' = seq_num receiver + 1" "pending s' sock' = extra"
      using r(3) by auto
    then show ?thesis using True r(1) r(2) sq by simp
  next
    case False
    then show ?thesis using r(1) r(3) by simp
  qed
qed

text \<open>
  The theorem at the keyed stream (toy cipher and MAC installed, sequence number 7) on
  both sides and the six-octet payload.
\<close>

theorem round_trip_witness:
  "stream_ok keyed_stream \<and> matching_keys toy_extern keyed_stream keyed_stream
   \<and> mac_ready toy_extern keyed_stream
   \<and> length hello + 260 < (2::nat) ^ 31 \<and> tx_open open_sock
   \<and> pending keyed_stream (sock_with keyed_wire)
       = drop (length (tx open_sock))
           (tx (snd (snd (ssh_stream_send_packet toy_extern (build_packet keyed_stream hello)
                            open_sock)))) @ []
   \<and> 1 + length hello + wire_pad_len (cipher_block_len keyed_stream) (length hello) \<le> 65536
   \<and> fst (ssh_stream_send_packet toy_extern (build_packet keyed_stream hello) open_sock) = Inr ()
   \<and> fst (ssh_stream_recv_packet toy_extern keyed_stream (sock_with keyed_wire)) = Inr ()
   \<and> recv_payload (fst (snd (ssh_stream_recv_packet toy_extern keyed_stream (sock_with keyed_wire))))
       = hello
   \<and> seq_num (fst (snd (ssh_stream_recv_packet toy_extern keyed_stream (sock_with keyed_wire))))
       = seq_num (fst (snd (ssh_stream_send_packet toy_extern (build_packet keyed_stream hello)
                              open_sock)))"
proof -
  have h1: "stream_ok keyed_stream" by (rule keyed_stream_ok)
  have h2: "matching_keys toy_extern keyed_stream keyed_stream" by (rule keyed_matching)
  have h3: "mac_ready toy_extern keyed_stream" by (rule keyed_mac_ready)
  have h4: "len (net_buffer keyed_stream) \<le> length (data (net_buffer keyed_stream))"
    by (simp add: keyed_stream_def ssh_stream_init_def ssh_buf_new_def)
  have h5: "length hello + 260 < (2::nat) ^ 31" by (simp add: hello_def)
  have h6: "tx_open open_sock" by (simp add: open_sock_def)
  have h7: "pending keyed_stream (sock_with keyed_wire)
       = drop (length (tx open_sock))
           (tx (snd (snd (ssh_stream_send_packet toy_extern (build_packet keyed_stream hello)
                            open_sock)))) @ []"
    by (simp add: keyed_wire_sent)
       (simp add: pending_def contents_def keyed_stream_def ssh_stream_init_def ssh_buf_new_def
         sock_with_def open_sock_def)
  have h8: "1 + length hello + wire_pad_len (cipher_block_len keyed_stream) (length hello) \<le> 65536"
    by (simp add: hello_def keyed_stream_def ssh_stream_init_def wire_pad_len_def wire_block_def)
  show ?thesis
    using h1 h2 h3 h5 h6 h7 h8 round_trip [OF h1 h2 h3 h4 h5 h6 h7] by simp
qed

section \<open>Streams without keys\<close>


lemma send_packet_no_keys:
  "no_keys s \<Longrightarrow> no_keys (fst (snd (ssh_stream_send_packet X s sock)))"
  by (simp add: no_keys_def ssh_stream_send_packet_def finish_packet_def
      finish_packet_encrypt_def finish_packet_mac_def finish_packet_pad_fields
      ssh_net_write_all_def Let_def)

lemma recv_first_block_ctx:
  "cipher_type s = SSH_CIPHER_NONE \<Longrightarrow>
     cipher_ctx (fst (snd (recv_first_block X s sock n))) = cipher_ctx s"
  by (simp add: recv_first_block_def Let_def split_def set_read_pack_fields
      stream_recv_data_fields split: option.splits sum.splits)

lemma recv_rest_ctx:
  "cipher_type s = SSH_CIPHER_NONE \<Longrightarrow>
     cipher_ctx (fst (snd (recv_rest X s sock n p))) = cipher_ctx s"
  by (simp add: recv_rest_def Let_def split_def set_read_pack_fields
      stream_recv_data_fields split: option.splits sum.splits)

lemma recv_packet_no_keys:
  "no_keys s \<Longrightarrow> no_keys (fst (snd (ssh_stream_recv_packet X s sock)))"
  by (simp add: no_keys_def ssh_stream_recv_packet_def Let_def split_def
      recv_first_block_fields recv_rest_fields recv_first_block_ctx recv_rest_ctx
      split: sum.splits)

lemma fresh_send:
  fixes s :: "('c, 'm) SSH_STREAM"
  assumes nk: "no_keys s" and size: "length payload + 260 < 2 ^ 31" and op: "tx_open out"
  shows "fst (ssh_stream_send_packet X (build_packet s payload) out) = Inr ()"
    and "tx (snd (snd (ssh_stream_send_packet X (build_packet s payload) out)))
           = tx out @ wire_packet payload (replicate (wire_pad_len 0 (length payload)) 0xff)"
    and "length (wire_packet payload (replicate (wire_pad_len 0 (length payload)) 0xff)) mod 8 = 0"
    and "seq_num (fst (snd (ssh_stream_send_packet X (build_packet s payload) out))) = seq_num s + 1"
proof -
  let ?s0 = "build_packet s payload"
  let ?P = "plain_packet X s payload"
  have f: "cipher_type s = SSH_CIPHER_NONE" "cipher_block_len s = 0"
    "mac_type s = SSH_MAC_NONE" "mac_len s = 0"
    using nk by (simp_all add: no_keys_def)
  have P: "?P = wire_packet payload (replicate (wire_pad_len 0 (length payload)) 0xff)"
    by (simp add: plain_packet_def wire_padding_def f)
  have c: "cipher_block_len s \<le> 252" by (simp add: f)
  have size32: "length payload + 260 < 2 ^ 32" using size by simp
  obtain junk where pk: "pack (finish_packet_pad X ?s0) = \<lparr>data = ?P @ junk, len = length ?P\<rparr>"
    using pad_stage_pack [OF c size32] by blast
  have a: "cipher_type ?s0 \<noteq> SSH_CIPHER_NONE \<Longrightarrow>
             ssh_cipher_crypt X (cipher_ctx ?s0) ?P = Some (undefined, []) \<and> length [] = length ?P"
    by (simp add: build_packet_fields f)
  have b: "mac_type ?s0 \<noteq> SSH_MAC_NONE \<Longrightarrow>
             ssh_mac_compute X (mac_ctx ?s0) (seq_num ?s0) ?P = Some [] \<and> length [] = mac_len ?s0"
    by (simp add: build_packet_fields f)
  have m: "mac_type ?s0 = SSH_MAC_NONE \<Longrightarrow> mac_len ?s0 = 0"
    by (simp add: build_packet_fields f)
  note r = send_after_pad_wire [OF pk a b m op]
  show "fst (ssh_stream_send_packet X ?s0 out) = Inr ()" by (rule r(1))
  show "tx (snd (snd (ssh_stream_send_packet X ?s0 out)))
           = tx out @ wire_packet payload (replicate (wire_pad_len 0 (length payload)) 0xff)"
    using r(2) by (simp add: build_packet_fields f P)
  show "seq_num (fst (snd (ssh_stream_send_packet X ?s0 out))) = seq_num s + 1"
    using r(3) by (simp add: build_packet_fields)
  have "(5 + length payload + wire_pad_len 0 (length payload)) mod wire_block 0 = 0"
    by (rule wire_pad_len_bounds(3)) simp
  moreover have "length (wire_packet payload (replicate (wire_pad_len 0 (length payload)) 0xff))
      = 5 + length payload + wire_pad_len 0 (length payload)"
    by (simp add: wire_packet_def)
  moreover have "wire_block 0 = 8" by (simp add: wire_block_def)
  ultimately show "length (wire_packet payload (replicate (wire_pad_len 0 (length payload)) 0xff)) mod 8 = 0"
    by (simp only:)
qed

lemma fresh_recv:
  fixes s :: "('c, 'm) SSH_STREAM"
  assumes nk: "no_keys s"
    and nb: "len (net_buffer s) \<le> length (data (net_buffer s))"
    and f4: "4 \<le> length fill" and f255: "length fill \<le> 255"
    and al: "(5 + length payload + length fill) mod 8 = 0"
    and sz: "1 + length payload + length fill \<le> 65536"
    and pend: "pending s inp = wire_packet payload fill @ extra"
  shows "\<exists>s' sock'. ssh_stream_recv_packet X s inp = (Inr (), s', sock')
           \<and> recv_payload s' = payload \<and> seq_num s' = seq_num s + 1
           \<and> pending s' sock' = extra
           \<and> len (net_buffer s') \<le> length (data (net_buffer s'))"
proof -
  have f: "cipher_type s = SSH_CIPHER_NONE" "cipher_block_len s = 0"
    "mac_type s = SSH_MAC_NONE" "mac_len s = 0"
    using nk by (simp_all add: no_keys_def)
  let ?P = "wire_packet payload fill"
  have pend': "pending s inp = ?P @ [] @ extra" by (simp add: pend)
  have b: "(8::nat) = (if cipher_block_len s = 0 then 8 else cipher_block_len s)" by (simp add: f)
  have P: "?P = u32_be (of_nat (1 + length payload + length fill))
                  @ of_nat (length fill) # payload @ fill"
    by (simp add: wire_packet_def)
  have "length ?P = 5 + length payload + length fill" by (simp add: wire_packet_def)
  then have al': "length ?P mod 8 = 0" using al by (simp only:)
  have sz': "5 + length payload + length fill < 2 ^ 31" using sz by simp
  have "if 1 + length payload + length fill \<le> 65536
         then \<exists>s' sock'. ssh_stream_recv_packet X s inp = (Inr (), s', sock')
           \<and> recv_payload s' = payload \<and> seq_num s' = seq_num s + 1
           \<and> pending s' sock' = extra
           \<and> len (net_buffer s') \<le> length (data (net_buffer s'))
         else fst (ssh_stream_recv_packet X s inp) = Inl InvalidLength"
    by (rule recv_packet_ok [OF nb pend' b _ _ P f4 f255 al' sz' refl])
       (simp_all add: f)
  then show ?thesis using sz by simp
qed

text \<open>
  C10. Initial stream state: \<^verbatim>\<open>ssh_stream_init\<close> gives a stream with \<^verbatim>\<open>seq_num\<close> 0, no
  cipher (type none, block length 0, no context) and no MAC (type none, length 0, no
  context). A stream in that key state, whatever its sequence number, sends every
  payload in cleartext, framed with block length 8 and the filler 0xFF, with no MAC
  after it, and is in the same key state afterwards with its sequence number one
  higher; it receives every cleartext packet framed to a multiple of 8 (within the
  length limit) with no MAC, exposes its payload, and is again in the same key state.
  So every packet before keys are installed is handled this way, the first one with
  sequence number 0.
\<close>


theorem initial_stream_state:
  fixes X :: "('c, 'm) EXTERN"
  shows "seq_num (ssh_stream_init :: ('c, 'm) SSH_STREAM) = 0
     \<and> cipher_type (ssh_stream_init :: ('c, 'm) SSH_STREAM) = SSH_CIPHER_NONE
     \<and> cipher_block_len (ssh_stream_init :: ('c, 'm) SSH_STREAM) = 0
     \<and> cipher_ctx (ssh_stream_init :: ('c, 'm) SSH_STREAM) = None
     \<and> mac_type (ssh_stream_init :: ('c, 'm) SSH_STREAM) = SSH_MAC_NONE
     \<and> mac_len (ssh_stream_init :: ('c, 'm) SSH_STREAM) = 0
     \<and> mac_ctx (ssh_stream_init :: ('c, 'm) SSH_STREAM) = None
     \<and> no_keys (ssh_stream_init :: ('c, 'm) SSH_STREAM)
     \<and> len (net_buffer (ssh_stream_init :: ('c, 'm) SSH_STREAM))
           \<le> length (data (net_buffer (ssh_stream_init :: ('c, 'm) SSH_STREAM)))
     \<and> (\<forall>(s :: ('c, 'm) SSH_STREAM) payload out.
           no_keys s \<and> length payload + 260 < 2 ^ 31 \<and> tx_open out \<longrightarrow>
             fst (ssh_stream_send_packet X (build_packet s payload) out) = Inr ()
           \<and> tx (snd (snd (ssh_stream_send_packet X (build_packet s payload) out)))
               = tx out @ wire_packet payload (replicate (wire_pad_len 0 (length payload)) 0xff)
           \<and> length (wire_packet payload (replicate (wire_pad_len 0 (length payload)) 0xff))
                 mod 8 = 0
           \<and> seq_num (fst (snd (ssh_stream_send_packet X (build_packet s payload) out)))
               = seq_num s + 1
           \<and> no_keys (fst (snd (ssh_stream_send_packet X (build_packet s payload) out))))
     \<and> (\<forall>(s :: ('c, 'm) SSH_STREAM) payload fill inp extra.
           no_keys s \<and> len (net_buffer s) \<le> length (data (net_buffer s))
           \<and> 4 \<le> length fill \<and> length fill \<le> 255
           \<and> (5 + length payload + length fill) mod 8 = 0
           \<and> 1 + length payload + length fill \<le> 65536
           \<and> pending s inp = wire_packet payload fill @ extra \<longrightarrow>
             fst (ssh_stream_recv_packet X s inp) = Inr ()
           \<and> recv_payload (fst (snd (ssh_stream_recv_packet X s inp))) = payload
           \<and> seq_num (fst (snd (ssh_stream_recv_packet X s inp))) = seq_num s + 1
           \<and> pending (fst (snd (ssh_stream_recv_packet X s inp)))
                (snd (snd (ssh_stream_recv_packet X s inp))) = extra
           \<and> no_keys (fst (snd (ssh_stream_recv_packet X s inp)))
           \<and> len (net_buffer (fst (snd (ssh_stream_recv_packet X s inp))))
                 \<le> length (data (net_buffer (fst (snd (ssh_stream_recv_packet X s inp))))))"
proof -
  have init: "seq_num (ssh_stream_init :: ('c, 'm) SSH_STREAM) = 0
     \<and> cipher_type (ssh_stream_init :: ('c, 'm) SSH_STREAM) = SSH_CIPHER_NONE
     \<and> cipher_block_len (ssh_stream_init :: ('c, 'm) SSH_STREAM) = 0
     \<and> cipher_ctx (ssh_stream_init :: ('c, 'm) SSH_STREAM) = None
     \<and> mac_type (ssh_stream_init :: ('c, 'm) SSH_STREAM) = SSH_MAC_NONE
     \<and> mac_len (ssh_stream_init :: ('c, 'm) SSH_STREAM) = 0
     \<and> mac_ctx (ssh_stream_init :: ('c, 'm) SSH_STREAM) = None
     \<and> no_keys (ssh_stream_init :: ('c, 'm) SSH_STREAM)
     \<and> len (net_buffer (ssh_stream_init :: ('c, 'm) SSH_STREAM))
           \<le> length (data (net_buffer (ssh_stream_init :: ('c, 'm) SSH_STREAM)))"
    by (simp add: ssh_stream_init_def no_keys_def ssh_buf_new_def)
  have snd_part: "fst (ssh_stream_send_packet X (build_packet s payload) out) = Inr ()
           \<and> tx (snd (snd (ssh_stream_send_packet X (build_packet s payload) out)))
               = tx out @ wire_packet payload (replicate (wire_pad_len 0 (length payload)) 0xff)
           \<and> length (wire_packet payload (replicate (wire_pad_len 0 (length payload)) 0xff))
                 mod 8 = 0
           \<and> seq_num (fst (snd (ssh_stream_send_packet X (build_packet s payload) out)))
               = seq_num s + 1
           \<and> no_keys (fst (snd (ssh_stream_send_packet X (build_packet s payload) out)))"
    if h: "no_keys s \<and> length payload + 260 < 2 ^ 31 \<and> tx_open out"
    for s :: "('c, 'm) SSH_STREAM" and payload out
  proof -
    have nk: "no_keys s" and sz: "length payload + 260 < 2 ^ 31" and op: "tx_open out"
      using h by simp_all
    have "no_keys (build_packet s payload)" using nk by (simp add: no_keys_def build_packet_fields)
    then have "no_keys (fst (snd (ssh_stream_send_packet X (build_packet s payload) out)))"
      by (rule send_packet_no_keys)
    then show ?thesis
      using fresh_send [OF nk sz op] by simp
  qed
  have rcv_part: "fst (ssh_stream_recv_packet X s inp) = Inr ()
           \<and> recv_payload (fst (snd (ssh_stream_recv_packet X s inp))) = payload
           \<and> seq_num (fst (snd (ssh_stream_recv_packet X s inp))) = seq_num s + 1
           \<and> pending (fst (snd (ssh_stream_recv_packet X s inp)))
                (snd (snd (ssh_stream_recv_packet X s inp))) = extra
           \<and> no_keys (fst (snd (ssh_stream_recv_packet X s inp)))
           \<and> len (net_buffer (fst (snd (ssh_stream_recv_packet X s inp))))
                 \<le> length (data (net_buffer (fst (snd (ssh_stream_recv_packet X s inp)))))"
    if h: "no_keys s \<and> len (net_buffer s) \<le> length (data (net_buffer s))
           \<and> 4 \<le> length fill \<and> length fill \<le> 255
           \<and> (5 + length payload + length fill) mod 8 = 0
           \<and> 1 + length payload + length fill \<le> 65536
           \<and> pending s inp = wire_packet payload fill @ extra"
    for s :: "('c, 'm) SSH_STREAM" and payload fill inp extra
  proof -
    have nk: "no_keys s" using h by simp
    have h1: "len (net_buffer s) \<le> length (data (net_buffer s))"
      and h2: "4 \<le> length fill" and h3: "length fill \<le> 255"
      and h4: "(5 + length payload + length fill) mod 8 = 0"
      and h5: "1 + length payload + length fill \<le> 65536"
      and h6: "pending s inp = wire_packet payload fill @ extra"
      using h by simp_all
    from fresh_recv [OF nk h1 h2 h3 h4 h5 h6, where X = X]
    obtain s' sock' where "ssh_stream_recv_packet X s inp = (Inr (), s', sock')"
        "recv_payload s' = payload" "seq_num s' = seq_num s + 1" "pending s' sock' = extra"
        "len (net_buffer s') \<le> length (data (net_buffer s'))"
      by blast
    then show ?thesis using recv_packet_no_keys [OF nk, where X = X and sock = inp] by simp
  qed
  have S: "\<forall>(s :: ('c, 'm) SSH_STREAM) payload out.
           no_keys s \<and> length payload + 260 < 2 ^ 31 \<and> tx_open out \<longrightarrow>
             fst (ssh_stream_send_packet X (build_packet s payload) out) = Inr ()
           \<and> tx (snd (snd (ssh_stream_send_packet X (build_packet s payload) out)))
               = tx out @ wire_packet payload (replicate (wire_pad_len 0 (length payload)) 0xff)
           \<and> length (wire_packet payload (replicate (wire_pad_len 0 (length payload)) 0xff))
                 mod 8 = 0
           \<and> seq_num (fst (snd (ssh_stream_send_packet X (build_packet s payload) out)))
               = seq_num s + 1
           \<and> no_keys (fst (snd (ssh_stream_send_packet X (build_packet s payload) out)))"
    by (intro allI impI) (rule snd_part)
  have R: "\<forall>(s :: ('c, 'm) SSH_STREAM) payload fill inp extra.
           no_keys s \<and> len (net_buffer s) \<le> length (data (net_buffer s))
           \<and> 4 \<le> length fill \<and> length fill \<le> 255
           \<and> (5 + length payload + length fill) mod 8 = 0
           \<and> 1 + length payload + length fill \<le> 65536
           \<and> pending s inp = wire_packet payload fill @ extra \<longrightarrow>
             fst (ssh_stream_recv_packet X s inp) = Inr ()
           \<and> recv_payload (fst (snd (ssh_stream_recv_packet X s inp))) = payload
           \<and> seq_num (fst (snd (ssh_stream_recv_packet X s inp))) = seq_num s + 1
           \<and> pending (fst (snd (ssh_stream_recv_packet X s inp)))
                (snd (snd (ssh_stream_recv_packet X s inp))) = extra
           \<and> no_keys (fst (snd (ssh_stream_recv_packet X s inp)))
           \<and> len (net_buffer (fst (snd (ssh_stream_recv_packet X s inp))))
                 \<le> length (data (net_buffer (fst (snd (ssh_stream_recv_packet X s inp)))))"
    by (intro allI impI) (rule rcv_part)
  show ?thesis by (insert init S R) (elim conjE, intro conjI; assumption)
qed

text \<open>The theorem at the fresh stream, for the payload and the packet of the first scenario.\<close>

theorem initial_stream_state_witness:
  "no_keys fresh_stream \<and> length hello + 260 < (2 :: nat) ^ 31 \<and> tx_open open_sock
   \<and> fst (ssh_stream_send_packet toy_extern (build_packet fresh_stream hello) open_sock) = Inr ()
   \<and> tx (snd (snd (ssh_stream_send_packet toy_extern (build_packet fresh_stream hello) open_sock)))
       = tx open_sock @ wire_packet hello (replicate (wire_pad_len 0 (length hello)) 0xff)
   \<and> wire_packet hello (replicate (wire_pad_len 0 (length hello)) 0xff) = hello_wire
   \<and> seq_num (fst (snd (ssh_stream_send_packet toy_extern (build_packet fresh_stream hello)
                            open_sock))) = 1
   \<and> len (net_buffer fresh_stream) \<le> length (data (net_buffer fresh_stream))
   \<and> pending fresh_stream (sock_with hello_wire)
       = wire_packet hello (replicate 5 0xff) @ []
   \<and> fst (ssh_stream_recv_packet toy_extern fresh_stream (sock_with hello_wire)) = Inr ()
   \<and> recv_payload (fst (snd (ssh_stream_recv_packet toy_extern fresh_stream (sock_with hello_wire))))
       = hello
   \<and> seq_num (fst (snd (ssh_stream_recv_packet toy_extern fresh_stream (sock_with hello_wire))))
       = 1"
proof -
  note t = initial_stream_state [of toy_extern]
  have nk: "no_keys fresh_stream" using t by (simp add: fresh_stream_def)
  have sq: "seq_num fresh_stream = 0" using t by (simp add: fresh_stream_def)
  have sz: "length hello + 260 < (2 :: nat) ^ 31" by (simp add: hello_def)
  have op: "tx_open open_sock" by (simp add: open_sock_def)
  have w: "wire_pad_len 0 (length hello) = 5"
    by (simp add: wire_pad_len_def wire_block_def hello_def)
  have hw: "wire_packet hello (replicate (wire_pad_len 0 (length hello)) 0xff) = hello_wire"
    unfolding w by (simp add: wire_packet_def hello_def hello_wire_def u32_be_def replicate_numeral)
  have nb: "len (net_buffer fresh_stream) \<le> length (data (net_buffer fresh_stream))"
    using t by (simp add: fresh_stream_def)
  have pd: "pending fresh_stream (sock_with hello_wire) = wire_packet hello (replicate 5 0xff) @ []"
    using hw unfolding w
    by (simp add: pending_def contents_def fresh_stream_def ssh_stream_init_def ssh_buf_new_def
        sock_with_def)
  note S = t [THEN conjunct2, THEN conjunct2, THEN conjunct2, THEN conjunct2, THEN conjunct2,
      THEN conjunct2, THEN conjunct2, THEN conjunct2, THEN conjunct2, THEN conjunct1, rule_format]
  note R = t [THEN conjunct2, THEN conjunct2, THEN conjunct2, THEN conjunct2, THEN conjunct2,
      THEN conjunct2, THEN conjunct2, THEN conjunct2, THEN conjunct2, THEN conjunct2, rule_format]
  have s: "fst (ssh_stream_send_packet toy_extern (build_packet fresh_stream hello) open_sock) = Inr ()
     \<and> tx (snd (snd (ssh_stream_send_packet toy_extern (build_packet fresh_stream hello) open_sock)))
       = tx open_sock @ wire_packet hello (replicate (wire_pad_len 0 (length hello)) 0xff)
     \<and> seq_num (fst (snd (ssh_stream_send_packet toy_extern (build_packet fresh_stream hello)
                            open_sock))) = 1"
    using S [of fresh_stream hello open_sock] nk sz op sq by simp
  have f: "4 \<le> length (replicate 5 (0xff :: u8))" "length (replicate 5 (0xff :: u8)) \<le> 255"
    "(5 + length hello + length (replicate 5 (0xff :: u8))) mod 8 = 0"
    "1 + length hello + length (replicate 5 (0xff :: u8)) \<le> 65536"
    by (simp_all add: hello_def)
  have "no_keys fresh_stream \<and> len (net_buffer fresh_stream) \<le> length (data (net_buffer fresh_stream))
           \<and> 4 \<le> length (replicate 5 (0xff :: u8)) \<and> length (replicate 5 (0xff :: u8)) \<le> 255
           \<and> (5 + length hello + length (replicate 5 (0xff :: u8))) mod 8 = 0
           \<and> 1 + length hello + length (replicate 5 (0xff :: u8)) \<le> 65536
           \<and> pending fresh_stream (sock_with hello_wire)
               = wire_packet hello (replicate 5 0xff) @ []"
    using nk nb f pd by blast
  from R [OF this] have r: "fst (ssh_stream_recv_packet toy_extern fresh_stream (sock_with hello_wire)) = Inr ()
     \<and> recv_payload (fst (snd (ssh_stream_recv_packet toy_extern fresh_stream (sock_with hello_wire))))
         = hello
     \<and> seq_num (fst (snd (ssh_stream_recv_packet toy_extern fresh_stream (sock_with hello_wire))))
         = seq_num fresh_stream + 1"
    by blast
  show ?thesis using nk sz op s hw nb pd r sq by simp
qed

section \<open>The exchange hash\<close>


lemma ssh_buf_write_data_exact:
  assumes "b = \<lparr>data = d, len = length d\<rparr>"
  shows "ssh_buf_write_data b octets
           = \<lparr>data = d @ ssh_string octets, len = length (d @ ssh_string octets)\<rparr>"
  by (simp add: assms ssh_buf_write_data_def ssh_buf_write_u32_def ssh_buf_append_def
      ssh_buf_get_write_pointer_def buf_fill_def mem_store_def ssh_string_def)

text \<open>
  C7. Exchange hash input encoding: \<^verbatim>\<open>dh_kex_hash\<close> hashes the client version string,
  the server version string, the client's and the server's KEXINIT payloads (the
  octets the two buffers hold), the server host key, the client's public value \<open>e\<close>,
  the server's \<open>f\<close> and the shared secret \<open>K\<close>, in this order, each encoded as an SSH
  string: its length in four big-endian octets, then its octets. It returns the digest,
  or fails when the hash function does.
\<close>

theorem exchange_hash_encoding:
  "dh_kex_hash ssh_hash_compute hash_type k_s e f k conn kex =
     (case ssh_hash_compute hash_type
             (exchange_hash_input (client_version_string conn) (server_version_string conn)
                (contents (client_kexinit kex)) (contents (server_kexinit kex)) k_s e f k) of
        None \<Rightarrow> Inl HashError
      | Some h \<Rightarrow> Inr h)"
proof -
  let ?a = "ssh_string (client_version_string conn)"
  let ?b = "ssh_string (server_version_string conn)"
  let ?c = "ssh_string (contents (client_kexinit kex))"
  let ?d = "ssh_string (contents (server_kexinit kex))"
  define d1 where "d1 = ssh_buf_write_data ssh_buf_new (client_version_string conn)"
  define d2 where "d2 = ssh_buf_write_data d1 (server_version_string conn)"
  define d3 where "d3 = ssh_buf_write_buffer d2 (client_kexinit kex)"
  define d4 where "d4 = ssh_buf_write_buffer d3 (server_kexinit kex)"
  define d5 where "d5 = ssh_buf_write_string d4 k_s"
  define d6 where "d6 = ssh_buf_write_string d5 e"
  define d7 where "d7 = ssh_buf_write_string d6 f"
  define d8 where "d8 = ssh_buf_write_string d7 k"
  have e0: "ssh_buf_new = \<lparr>data = [], len = length ([] :: u8 list)\<rparr>"
    by (simp add: ssh_buf_new_def)
  have e1: "d1 = \<lparr>data = ?a, len = length ?a\<rparr>"
    unfolding d1_def using ssh_buf_write_data_exact [OF e0] by simp
  have e2: "d2 = \<lparr>data = ?a @ ?b, len = length (?a @ ?b)\<rparr>"
    unfolding d2_def by (rule ssh_buf_write_data_exact [OF e1])
  have e3: "d3 = \<lparr>data = (?a @ ?b) @ ?c, len = length ((?a @ ?b) @ ?c)\<rparr>"
    unfolding d3_def ssh_buf_write_buffer_def contents_def [symmetric]
    by (rule ssh_buf_write_data_exact [OF e2])
  have e4: "d4 = \<lparr>data = ((?a @ ?b) @ ?c) @ ?d, len = length (((?a @ ?b) @ ?c) @ ?d)\<rparr>"
    unfolding d4_def ssh_buf_write_buffer_def contents_def [symmetric]
    by (rule ssh_buf_write_data_exact [OF e3])
  have e5: "d5 = \<lparr>data = (((?a @ ?b) @ ?c) @ ?d) @ ssh_string k_s,
                  len = length ((((?a @ ?b) @ ?c) @ ?d) @ ssh_string k_s)\<rparr>"
    unfolding d5_def ssh_buf_write_string_def by (rule ssh_buf_write_data_exact [OF e4])
  have e6: "d6 = \<lparr>data = ((((?a @ ?b) @ ?c) @ ?d) @ ssh_string k_s) @ ssh_string e,
                  len = length (((((?a @ ?b) @ ?c) @ ?d) @ ssh_string k_s) @ ssh_string e)\<rparr>"
    unfolding d6_def ssh_buf_write_string_def by (rule ssh_buf_write_data_exact [OF e5])
  have e7: "d7 = \<lparr>data = (((((?a @ ?b) @ ?c) @ ?d) @ ssh_string k_s) @ ssh_string e) @ ssh_string f,
                  len = length ((((((?a @ ?b) @ ?c) @ ?d) @ ssh_string k_s) @ ssh_string e)
                                  @ ssh_string f)\<rparr>"
    unfolding d7_def ssh_buf_write_string_def by (rule ssh_buf_write_data_exact [OF e6])
  have e8: "d8 = \<lparr>data = ((((((?a @ ?b) @ ?c) @ ?d) @ ssh_string k_s) @ ssh_string e) @ ssh_string f)
                          @ ssh_string k,
                  len = length (((((((?a @ ?b) @ ?c) @ ?d) @ ssh_string k_s) @ ssh_string e)
                                  @ ssh_string f) @ ssh_string k)\<rparr>"
    unfolding d8_def ssh_buf_write_string_def by (rule ssh_buf_write_data_exact [OF e7])
  have t: "take (len d8) (data d8)
             = exchange_hash_input (client_version_string conn) (server_version_string conn)
                (contents (client_kexinit kex)) (contents (server_kexinit kex)) k_s e f k"
    unfolding e8 by (simp add: exchange_hash_input_def)
  have "dh_kex_hash ssh_hash_compute hash_type k_s e f k conn kex =
     (case ssh_hash_compute hash_type (take (len d8) (data d8)) of
        None \<Rightarrow> Inl HashError | Some h \<Rightarrow> Inr h)"
    by (simp add: dh_kex_hash_def Let_def d1_def d2_def d3_def d4_def d5_def d6_def d7_def d8_def)
  then show ?thesis by (simp only: t)
qed

section \<open>The MAC comparison\<close>

text \<open>
  C9. Constant-time MAC check: the claim is about the running time of the comparison,
  which these definitions do not measure. What they show is the comparison's inputs:
  \<^verbatim>\<open>verify_read_packet\<close> hands the computed digest and the received MAC octets to
  \<^verbatim>\<open>memcmp\<close> (line 191, which the source marks "[TODO: prevent timing attack]"), and
  a packet is rejected with a MAC mismatch both when the first and when the last
  octet of its MAC is wrong: the two inputs on which a comparison that stops at the
  first difference takes different times.
\<close>


theorem mac_comparison_inputs:
  "fst (ssh_stream_recv_packet toy_extern keyed_stream (sock_with keyed_wire)) = Inr ()
   \<and> fst (ssh_stream_recv_packet toy_extern keyed_stream (sock_with mac_first_wrong))
       = Inl MacMismatch
   \<and> fst (ssh_stream_recv_packet toy_extern keyed_stream (sock_with mac_last_wrong))
       = Inl MacMismatch"
  by (simp add: eval_defs)

end
